theory Spec2Isabelle
  imports Complex_Main "HOL-Library.AList"
begin

section \<open>Python strings\<close>

text \<open>
  A Python \<^verbatim>\<open>str\<close> is a sequence of Unicode code points, and \<^verbatim>\<open>str.strip()\<close> removes
  code points far beyond the 256 values of \<^typ>\<open>char\<close>. A string is therefore a list of
  code points; \<open>py\<close> reads an ASCII literal.
\<close>

type_synonym py_str = "nat list"

definition py :: "string \<Rightarrow> py_str" where
  "py s = map of_char s"

definition DOT :: nat where
  "DOT = of_char CHR ''.''"

definition EXCL :: nat where
  "EXCL = of_char CHR ''!''"

definition QUEST :: nat where
  "QUEST = of_char CHR ''?''"

definition SLASH :: nat where
  "SLASH = of_char CHR ''/''"

text \<open>
  \<^verbatim>\<open>str.isspace\<close> on one code point, as CPython's table of whitespace has it:
  U+0009..U+000D, U+001C..U+001F, U+0020, U+0085, U+00A0, U+1680, U+2000..U+200A,
  U+2028, U+2029, U+202F, U+205F, U+3000.
\<close>

definition isspace :: "nat \<Rightarrow> bool" where
  "isspace c \<longleftrightarrow>
     (9 \<le> c \<and> c \<le> 13) \<or> (28 \<le> c \<and> c \<le> 32) \<or> c = 133 \<or> c = 160 \<or> c = 5760 \<or>
     (8192 \<le> c \<and> c \<le> 8202) \<or> c = 8232 \<or> c = 8233 \<or> c = 8239 \<or> c = 8287 \<or>
     c = 12288"

text \<open>\<^verbatim>\<open>s.replace(old, new)\<close> for one-character \<open>old\<close> and \<open>new\<close>.\<close>

definition str_replace :: "nat \<Rightarrow> nat \<Rightarrow> py_str \<Rightarrow> py_str" where
  "str_replace old new s = map (\<lambda>c. if c = old then new else c) s"

text \<open>
  \<^verbatim>\<open>s.split(sep)\<close> for a one-character separator: a cut at every occurrence, empty
  pieces kept, so the result has one piece more than \<open>s\<close> has separators. (The first
  branch of the \<open>case\<close> is never taken: the result of a split is never empty.)
\<close>

fun str_split :: "nat \<Rightarrow> py_str \<Rightarrow> py_str list" where
  "str_split sep [] = [[]]"
| "str_split sep (c # cs) =
     (if c = sep then [] # str_split sep cs
      else (case str_split sep cs of [] \<Rightarrow> [[c]] | w # ws \<Rightarrow> (c # w) # ws))"

text \<open>\<^verbatim>\<open>s.strip()\<close>: whitespace removed at both ends.\<close>

definition str_strip :: "py_str \<Rightarrow> py_str" where
  "str_strip s = rev (dropWhile isspace (rev (dropWhile isspace s)))"

text \<open>The decimal text of a natural number, as \<^verbatim>\<open>f"{index}"\<close> formats it.\<close>

fun str_of_nat :: "nat \<Rightarrow> py_str" where
  "str_of_nat n = (if n < 10 then [48 + n] else str_of_nat (n div 10) @ [48 + n mod 10])"

section \<open>The segmenter\<close>

text \<open>
  \<^verbatim>\<open>
  def segment_text(text):
      sentences = text.replace('!', '.').replace('?', '.').split('.')
      return [s.strip() for s in sentences if s.strip()]
  \<close>
  An empty string is false in a condition, so the comprehension keeps the pieces whose
  trimmed text is not empty.
\<close>

definition segment_text :: "py_str \<Rightarrow> py_str list" where
  "segment_text text =
     (let sentences = str_split DOT (str_replace QUEST DOT (str_replace EXCL DOT text))
      in map str_strip (filter (\<lambda>s. str_strip s \<noteq> []) sentences))"

text \<open>Whether a text holds one of the three sentence terminators.\<close>

definition has_terminator :: "py_str \<Rightarrow> bool" where
  "has_terminator s \<longleftrightarrow> DOT \<in> set s \<or> EXCL \<in> set s \<or> QUEST \<in> set s"

text \<open>Whether a text holds a code point that is neither whitespace nor a terminator.\<close>

definition has_content :: "py_str \<Rightarrow> bool" where
  "has_content s \<longleftrightarrow> list_ex (\<lambda>c. \<not> isspace c \<and> c \<noteq> DOT \<and> c \<noteq> EXCL \<and> c \<noteq> QUEST) s"

section \<open>The world of a run\<close>

text \<open>
  The script works on files and on outside services and libraries. The file system is an
  association list from the path strings the program uses to the contents of regular files
  (directories are not entries: \<^verbatim>\<open>temp\<close> is created at start-up and the script never makes
  another). Paths are compared as strings, without normalisation, and a write always
  succeeds; both are as on a real file system when the name of the upload is a plain file
  name. Outside calls are functions of an environment, each returning its value or the
  exception it raises. Every exception of the model is an instance of Python's
  \<^verbatim>\<open>Exception\<close>.
\<close>

type_synonym bytes = "nat list"

type_synonym fs = "(py_str \<times> bytes) list"

datatype exn = ZeroDivisionError | FileNotFoundError | ServiceError nat

text \<open>
  A clip of the video library, as far as the script sets it up: the image it shows, the
  duration given by \<^verbatim>\<open>set_duration\<close>, and the effects applied. Durations are seconds. A
  Python float is kept as the rational number it stands for (every finite float is one);
  the one float operation of the script, the division of a float by an integer, rounds its
  result, and is left to the environment as \<open>float_div\<close>.
\<close>

datatype effect = FadeIn rat

record clip =
  image :: py_str
  duration :: "rat option"
  effects :: "effect list"

record audio_clip =
  a_file :: py_str
  a_duration :: rat

record video =
  segments :: "clip list"
  audio :: "audio_clip option"

text \<open>
  The environment. \<open>images_generate\<close> and \<open>requests_get\<close> take the index of the sentence
  they are called for besides their argument: the services are not functions of their
  input, and two calls with one prompt may end differently.
\<close>

record env =
  transcriptions_create :: "bytes \<Rightarrow> exn + py_str"
  images_generate :: "nat \<Rightarrow> py_str \<Rightarrow> exn + py_str"
  requests_get :: "nat \<Rightarrow> py_str \<Rightarrow> exn + bytes"
  audio_decode :: "bytes \<Rightarrow> exn + rat"
  image_decode :: "bytes \<Rightarrow> exn + unit"
  float_div :: "rat \<Rightarrow> nat \<Rightarrow> rat"
  encode :: "video \<Rightarrow> exn + bytes"

text \<open>
  What the user sees and which functions are entered, in order. The messages of
  \<^verbatim>\<open>st.error\<close> and \<^verbatim>\<open>st.warning\<close> are named, not spelled out; the label of a progress step
  is left out. \<open>CallTranscribe\<close>, \<open>CallGenerate\<close> and \<open>CallCreateVideo\<close> record the entry
  into \<^verbatim>\<open>transcribe_audio\<close>, \<^verbatim>\<open>generate_image_for_sentence\<close> and
  \<^verbatim>\<open>create_video_from_images\<close> with their arguments.
\<close>

datatype message = NoSentences | NoImages | ImageError py_str exn | UploadFirst

datatype event =
    Progress nat
  | ProgressEmpty
  | Expander py_str
  | StError message
  | StWarning message
  | StSuccess
  | StHeader
  | StVideo bytes
  | StDownloadButton bytes
  | CallTranscribe py_str
  | CallGenerate py_str nat
  | CallCreateVideo "py_str list" py_str py_str
  | WriteVideofile video py_str

record state =
  files :: fs
  log :: "event list"

definition emit :: "event \<Rightarrow> state \<Rightarrow> state" where
  "emit e st = st\<lparr>log := log st @ [e]\<rparr>"

text \<open>\<^verbatim>\<open>with open(path, "wb") as f: f.write(data)\<close>\<close>

definition write_file :: "py_str \<Rightarrow> bytes \<Rightarrow> state \<Rightarrow> state" where
  "write_file path data st = st\<lparr>files := AList.update path data (files st)\<rparr>"

text \<open>\<^verbatim>\<open>open(path, "rb").read()\<close>\<close>

definition read_file :: "py_str \<Rightarrow> state \<Rightarrow> exn + bytes" where
  "read_file path st =
     (case map_of (files st) path of None \<Rightarrow> Inl FileNotFoundError | Some data \<Rightarrow> Inr data)"

text \<open>\<^verbatim>\<open>os.path.join(a, b)\<close> on POSIX.\<close>

definition os_path_join :: "py_str \<Rightarrow> py_str \<Rightarrow> py_str" where
  "os_path_join a b =
     (if b \<noteq> [] \<and> hd b = SLASH then b
      else if a = [] \<or> last a = SLASH then a @ b
      else a @ [SLASH] @ b)"

text \<open>Whether path \<open>p\<close> names an entry of directory \<open>d\<close> itself.\<close>

definition in_dir :: "py_str \<Rightarrow> py_str \<Rightarrow> bool" where
  "in_dir d p \<longleftrightarrow>
     take (length d + 1) p = d @ [SLASH] \<and> drop (length d + 1) p \<noteq> [] \<and>
     SLASH \<notin> set (drop (length d + 1) p)"

text \<open>\<^verbatim>\<open>os.listdir(d)\<close>: the names of the entries of \<open>d\<close>.\<close>

definition os_listdir :: "py_str \<Rightarrow> fs \<Rightarrow> py_str list" where
  "os_listdir d fs = remdups (map (drop (length d + 1)) (filter (in_dir d) (map fst fs)))"

text \<open>\<^verbatim>\<open>os.remove(path)\<close>\<close>

definition os_remove :: "py_str \<Rightarrow> state \<Rightarrow> (exn + unit) \<times> state" where
  "os_remove path st =
     (case map_of (files st) path of
        None \<Rightarrow> (Inl FileNotFoundError, st)
      | Some _ \<Rightarrow> (Inr (), st\<lparr>files := AList.delete path (files st)\<rparr>))"

section \<open>Transcriber and illustrator\<close>

text \<open>
  \<^verbatim>\<open>
  def transcribe_audio(audio_path):
      with open(audio_path, "rb") as audio_file:
          transcription = client.audio.transcriptions.create(model="whisper-1", file=audio_file)
      return transcription.text
  \<close>
\<close>

definition transcribe_audio :: "env \<Rightarrow> py_str \<Rightarrow> state \<Rightarrow> (exn + py_str) \<times> state" where
  "transcribe_audio env audio_path st =
     (let st1 = emit (CallTranscribe audio_path) st
      in case read_file audio_path st1 of
           Inl e \<Rightarrow> (Inl e, st1)
         | Inr audio_file \<Rightarrow> (transcriptions_create env audio_file, st1))"

text \<open>The three entries of \<^verbatim>\<open>style_options\<close>; the select box returns one of its keys.\<close>

datatype style = Padrao | Cartoon | Detalhado

fun style_options :: "style \<Rightarrow> py_str" where
  "style_options Padrao =
     py ''Mantenha o estilo de desenho o mais simples poss'' @ [237] @ py ''vel.''"
| "style_options Cartoon =
     py ''Use um estilo de desenho animado (cartoon) amig'' @ [225] @ py ''vel e expressivo.''"
| "style_options Detalhado =
     py ''Adicione um pouco mais de detalhes e sombreamento leve, mas ainda mantendo a apar''
       @ [234] @ py ''ncia de quadro branco.''"

definition base_prompt :: py_str where
  "base_prompt =
     py ''Crie uma ilustra'' @ [231, 227] @ py ''o no estilo de anima'' @ [231, 227]
       @ py ''o de quadro branco (video scribing), ''
       @ py ''minimalista, com desenhos de linha simples em preto sobre um fundo totalmente branco. ''
       @ py ''A imagem deve ser limpa e clara, como se estivesse sendo desenhada em tempo real. ''
       @ py ''Ilustre o seguinte conceito ou cena: ''"

text \<open>\<^verbatim>\<open>f"{base_prompt} '{sentence}'. {style_prompt}"\<close> (39 is the apostrophe).\<close>

definition full_prompt :: "py_str \<Rightarrow> py_str \<Rightarrow> py_str" where
  "full_prompt sentence style_prompt =
     base_prompt @ [32, 39] @ sentence @ [39, 46, 32] @ style_prompt"

text \<open>
  The two outside calls of the \<^verbatim>\<open>try\<close> block: the generation request, then the download
  of the image at the URL it returned.
\<close>

definition fetch_image :: "env \<Rightarrow> nat \<Rightarrow> py_str \<Rightarrow> exn + bytes" where
  "fetch_image env index prompt =
     (case images_generate env index prompt of
        Inl e \<Rightarrow> Inl e
      | Inr image_url \<Rightarrow> requests_get env index image_url)"

definition image_path_of :: "nat \<Rightarrow> py_str" where
  "image_path_of index = os_path_join (py ''temp'') (py ''image_'' @ str_of_nat index @ py ''.png'')"

text \<open>
  \<^verbatim>\<open>
  def generate_image_for_sentence(sentence, style_prompt, index):
      full_prompt = f"{base_prompt} '{sentence}'. {style_prompt}"
      try:
          response = client.images.generate(model="dall-e-3", prompt=full_prompt, ...)
          image_url = response.data[0].url
          image_data = requests.get(image_url).content
          image_path = os.path.join("temp", f"image_{index}.png")
          with open(image_path, "wb") as f:
              f.write(image_data)
          return image_path
      except Exception as e:
          st.error(...)
          return None
  \<close>
  The result is a path or \<open>None\<close>; the \<^verbatim>\<open>except\<close> clause is the \<open>Inl\<close> branch.
\<close>

definition generate_image_for_sentence ::
  "env \<Rightarrow> py_str \<Rightarrow> py_str \<Rightarrow> nat \<Rightarrow> state \<Rightarrow> py_str option \<times> state" where
  "generate_image_for_sentence env sentence style_prompt index st =
     (let st1 = emit (CallGenerate sentence index) st
      in case fetch_image env index (full_prompt sentence style_prompt) of
           Inr image_data \<Rightarrow>
             (Some (image_path_of index), write_file (image_path_of index) image_data st1)
         | Inl e \<Rightarrow> (None, emit (StError (ImageError sentence e)) st1))"

section \<open>The video assembler\<close>

text \<open>
  \<^verbatim>\<open>ImageClip(image_path)\<close>: the image file is read and decoded when the clip is built, so
  a missing or unreadable image raises here.
\<close>

definition ImageClip :: "env \<Rightarrow> py_str \<Rightarrow> state \<Rightarrow> exn + clip" where
  "ImageClip env image_path st =
     (case read_file image_path st of
        Inl e \<Rightarrow> Inl e
      | Inr data \<Rightarrow>
          (case image_decode env data of
             Inl e \<Rightarrow> Inl e
           | Inr _ \<Rightarrow> Inr \<lparr>image = image_path, duration = None, effects = []\<rparr>))"

definition set_duration :: "rat \<Rightarrow> clip \<Rightarrow> clip" where
  "set_duration d c = c\<lparr>duration := Some d\<rparr>"

definition fadein :: "rat \<Rightarrow> clip \<Rightarrow> clip" where
  "fadein d c = c\<lparr>effects := effects c @ [FadeIn d]\<rparr>"

definition concatenate_videoclips :: "clip list \<Rightarrow> video" where
  "concatenate_videoclips clips = \<lparr>segments = clips, audio = None\<rparr>"

definition set_audio :: "audio_clip \<Rightarrow> video \<Rightarrow> video" where
  "set_audio a v = v\<lparr>audio := Some a\<rparr>"

text \<open>\<^verbatim>\<open>AudioFileClip(audio_path)\<close>: the file is read and decoded.\<close>

definition AudioFileClip :: "env \<Rightarrow> py_str \<Rightarrow> state \<Rightarrow> exn + audio_clip" where
  "AudioFileClip env audio_path st =
     (case read_file audio_path st of
        Inl e \<Rightarrow> Inl e
      | Inr data \<Rightarrow>
          (case audio_decode env data of
             Inl e \<Rightarrow> Inl e
           | Inr d \<Rightarrow> Inr \<lparr>a_file = audio_path, a_duration = d\<rparr>))"

text \<open>
  The loop of \<^verbatim>\<open>create_video_from_images\<close>:
  \<^verbatim>\<open>
      clips = []
      for image_path in image_paths:
          clip = ImageClip(image_path).set_duration(duration_per_image)
          clip = clip.fadein(0.5)
          clips.append(clip)
  \<close>
\<close>

fun clips_loop :: "env \<Rightarrow> state \<Rightarrow> rat \<Rightarrow> py_str list \<Rightarrow> clip list \<Rightarrow> exn + clip list" where
  "clips_loop env st duration_per_image [] clips = Inr clips"
| "clips_loop env st duration_per_image (image_path # rest) clips =
     (case ImageClip env image_path st of
        Inl e \<Rightarrow> Inl e
      | Inr c \<Rightarrow>
          clips_loop env st duration_per_image rest
            (clips @ [fadein (1 / 2) (set_duration duration_per_image c)]))"

text \<open>
  \<^verbatim>\<open>
  def create_video_from_images(image_paths, audio_path, output_path="final_animation.mp4"):
      audio_clip = AudioFileClip(audio_path)
      total_duration = audio_clip.duration
      duration_per_image = total_duration / len(image_paths)
      ... the loop ...
      final_clip = concatenate_videoclips(clips, method="compose")
      final_clip = final_clip.set_audio(audio_clip)
      final_clip.write_videofile(output_path, codec="libx264", fps=24)
      return output_path
  \<close>
  Dividing a float by the integer zero raises \<^verbatim>\<open>ZeroDivisionError\<close>.
\<close>

definition create_video_from_images ::
  "env \<Rightarrow> py_str list \<Rightarrow> py_str \<Rightarrow> py_str \<Rightarrow> state \<Rightarrow> (exn + py_str) \<times> state" where
  "create_video_from_images env image_paths audio_path output_path st =
     (let st1 = emit (CallCreateVideo image_paths audio_path output_path) st
      in case AudioFileClip env audio_path st1 of
           Inl e \<Rightarrow> (Inl e, st1)
         | Inr a_clip \<Rightarrow>
             if length image_paths = 0 then (Inl ZeroDivisionError, st1)
             else
               let total_duration = a_duration a_clip;
                   duration_per_image = float_div env total_duration (length image_paths)
               in case clips_loop env st1 duration_per_image image_paths [] of
                    Inl e \<Rightarrow> (Inl e, st1)
                  | Inr clips \<Rightarrow>
                      let final_clip = set_audio a_clip (concatenate_videoclips clips);
                          st2 = emit (WriteVideofile final_clip output_path) st1
                      in case encode env final_clip of
                           Inl e \<Rightarrow> (Inl e, st2)
                         | Inr data \<Rightarrow> (Inr output_path, write_file output_path data st2))"

text \<open>Whether the clip of an image can be built in a state.\<close>

definition image_loads :: "env \<Rightarrow> state \<Rightarrow> py_str \<Rightarrow> bool" where
  "image_loads env st image_path =
     (case ImageClip env image_path st of Inl e \<Rightarrow> False | Inr c \<Rightarrow> True)"

section \<open>The button handler\<close>

text \<open>
  The illustration loop:
  \<^verbatim>\<open>
      image_paths = []
      total_sentences = len(sentences)
      for i, sentence in enumerate(sentences):
          current_progress = 10 + int(80 * (i + 1) / total_sentences)
          progress_bar.progress(current_progress, text=progress_text)
          image_path = generate_image_for_sentence(sentence, style_options[selected_style], i)
          if image_path:
              image_paths.append(image_path)
  \<close>
  \<open>None\<close> and the empty string are false in the condition.
\<close>

fun image_loop ::
  "env \<Rightarrow> style \<Rightarrow> nat \<Rightarrow> (nat \<times> py_str) list \<Rightarrow> py_str list \<Rightarrow> state \<Rightarrow> py_str list \<times> state" where
  "image_loop env selected_style total_sentences [] image_paths st = (image_paths, st)"
| "image_loop env selected_style total_sentences ((i, sentence) # rest) image_paths st =
     (let current_progress = 10 + (80 * (i + 1)) div total_sentences;
          st1 = emit (Progress current_progress) st;
          (image_path, st2) =
            generate_image_for_sentence env sentence (style_options selected_style) i st1
      in image_loop env selected_style total_sentences rest
           (case image_path of
              None \<Rightarrow> image_paths
            | Some p \<Rightarrow> if p \<noteq> [] then image_paths @ [p] else image_paths)
           st2)"

text \<open>
  The clean-up loop:
  \<^verbatim>\<open>
      for file in os.listdir("temp"):
          os.remove(os.path.join("temp", file))
  \<close>
\<close>

fun remove_loop :: "py_str list \<Rightarrow> state \<Rightarrow> (exn + unit) \<times> state" where
  "remove_loop [] st = (Inr (), st)"
| "remove_loop (file # rest) st =
     (case os_remove (os_path_join (py ''temp'') file) st of
        (Inl e, st1) \<Rightarrow> (Inl e, st1)
      | (Inr _, st1) \<Rightarrow> remove_loop rest st1)"

text \<open>
  How a run ends: the handler ran to its end, \<^verbatim>\<open>st.stop()\<close> ended it, or an exception
  left it.
\<close>

datatype outcome = Completed | Stopped | Raised exn

text \<open>
  The body of \<^verbatim>\<open>if st.button(...)\<close>, from the files \<open>fs0\<close> and an empty log. The upload
  is \<open>None\<close> or the name and the buffer of the uploaded file.
\<close>

definition on_click :: "env \<Rightarrow> (py_str \<times> bytes) option \<Rightarrow> style \<Rightarrow> fs \<Rightarrow> outcome \<times> state" where
  "on_click env uploaded_file selected_style fs0 =
     (case uploaded_file of
        None \<Rightarrow> (Completed, emit (StWarning UploadFirst) \<lparr>files = fs0, log = []\<rparr>)
      | Some (name, buffer) \<Rightarrow>
          let audio_path = os_path_join (py ''temp'') name;
              st1 = write_file audio_path buffer \<lparr>files = fs0, log = []\<rparr>;
              st2 = emit (Progress 10) (emit (Progress 0) st1)
          in case transcribe_audio env audio_path st2 of
               (Inl e, st3) \<Rightarrow> (Raised e, st3)
             | (Inr transcribed_text, st3) \<Rightarrow>
                 let st4 = emit (Expander transcribed_text) st3;
                     sentences = segment_text transcribed_text
                 in if sentences = [] then (Stopped, emit (StError NoSentences) st4)
                    else
                      let (image_paths, st5) =
                            image_loop env selected_style (length sentences)
                              (enumerate 0 sentences) [] st4
                      in if image_paths = [] then (Stopped, emit (StError NoImages) st5)
                         else
                           case create_video_from_images env image_paths audio_path
                                  (py ''final_animation.mp4'') (emit (Progress 95) st5) of
                             (Inl e, st6) \<Rightarrow> (Raised e, st6)
                           | (Inr video_path, st6) \<Rightarrow>
                               let st7 = emit StHeader (emit StSuccess
                                           (emit ProgressEmpty (emit (Progress 100) st6)))
                               in case read_file video_path st7 of
                                    Inl e \<Rightarrow> (Raised e, st7)
                                  | Inr video_bytes \<Rightarrow>
                                      let st8 = emit (StDownloadButton video_bytes)
                                                  (emit (StVideo video_bytes) st7)
                                      in case remove_loop
                                                (os_listdir (py ''temp'') (files st8)) st8 of
                                           (Inl e, st9) \<Rightarrow> (Raised e, st9)
                                         | (Inr _, st9) \<Rightarrow> (Completed, st9))"

text \<open>The calls a log records.\<close>

fun assembler_call :: "event \<Rightarrow> (py_str list \<times> py_str \<times> py_str) list" where
  "assembler_call (CallCreateVideo image_paths audio_path output_path) =
     [(image_paths, audio_path, output_path)]"
| "assembler_call _ = []"

definition assembler_calls :: "event list \<Rightarrow> (py_str list \<times> py_str \<times> py_str) list" where
  "assembler_calls evs = concat (map assembler_call evs)"

fun illustrator_call :: "event \<Rightarrow> (py_str \<times> nat) list" where
  "illustrator_call (CallGenerate sentence index) = [(sentence, index)]"
| "illustrator_call _ = []"

definition illustrator_calls :: "event list \<Rightarrow> (py_str \<times> nat) list" where
  "illustrator_calls evs = concat (map illustrator_call evs)"

text \<open>Whether the illustration of sentence \<open>i\<close> succeeds in an environment.\<close>

definition illustrated :: "env \<Rightarrow> style \<Rightarrow> nat \<times> py_str \<Rightarrow> bool" where
  "illustrated env selected_style = (\<lambda>(i, sentence).
     (case fetch_image env i (full_prompt sentence (style_options selected_style)) of
        Inl _ \<Rightarrow> False | Inr _ \<Rightarrow> True))"

section \<open>Stages of a run\<close>

text \<open>
  Names for three stages of the handler, used to state what it does: the path the upload is
  saved at, the state once the transcript is shown, and the end of the run from the result
  of the assembler on.
\<close>

definition audio_path_of :: "py_str \<Rightarrow> py_str" where
  "audio_path_of name = os_path_join (py ''temp'') name"

definition transcribed :: "py_str \<Rightarrow> bytes \<Rightarrow> py_str \<Rightarrow> fs \<Rightarrow> state" where
  "transcribed name buffer text fs0 =
     \<lparr>files = AList.update (audio_path_of name) buffer fs0,
      log = [Progress 0, Progress 10, CallTranscribe (audio_path_of name), Expander text]\<rparr>"

definition finish :: "(exn + py_str) \<times> state \<Rightarrow> outcome \<times> state" where
  "finish r =
     (case r of
        (Inl e, st6) \<Rightarrow> (Raised e, st6)
      | (Inr video_path, st6) \<Rightarrow>
          let st7 = emit StHeader (emit StSuccess (emit ProgressEmpty (emit (Progress 100) st6)))
          in case read_file video_path st7 of
               Inl e \<Rightarrow> (Raised e, st7)
             | Inr video_bytes \<Rightarrow>
                 let st8 = emit (StDownloadButton video_bytes) (emit (StVideo video_bytes) st7)
                 in case remove_loop (os_listdir (py ''temp'') (files st8)) st8 of
                      (Inl e, st9) \<Rightarrow> (Raised e, st9)
                    | (Inr _, st9) \<Rightarrow> (Completed, st9))"

text \<open>An environment for examples: a fixed transcript, and illustration succeeding for the
  sentences of \<open>ok\<close>.\<close>

definition example_env :: "py_str \<Rightarrow> (nat \<Rightarrow> bool) \<Rightarrow> env" where
  "example_env text ok =
     \<lparr>transcriptions_create = (\<lambda>audio. Inr text),
      images_generate = (\<lambda>i prompt. if ok i then Inr (py ''url'') else Inl (ServiceError i)),
      requests_get = (\<lambda>i url. Inr [i]),
      audio_decode = (\<lambda>data. Inr 10),
      image_decode = (\<lambda>data. Inr ()),
      float_div = (\<lambda>d n. d / of_nat n),
      encode = (\<lambda>v. Inr [7])\<rparr>"

section \<open>Facts about the string functions\<close>

lemma terminators_not_space: "\<not> isspace DOT" "\<not> isspace EXCL" "\<not> isspace QUEST"
  by (simp_all add: isspace_def DOT_def EXCL_def QUEST_def)

lemma terminators_distinct: "EXCL \<noteq> DOT" "QUEST \<noteq> DOT" "EXCL \<noteq> QUEST"
  by (simp_all add: DOT_def EXCL_def QUEST_def)

lemma str_split_not_Nil: "str_split sep s \<noteq> []"
  by (induction s) (auto split: list.splits)

lemma str_split_no_sep: "p \<in> set (str_split sep s) \<Longrightarrow> sep \<notin> set p"
proof (induction s arbitrary: p)
  case Nil
  then show ?case by simp
next
  case (Cons c cs)
  show ?case
  proof (cases "c = sep")
    case True
    with Cons show ?thesis by auto
  next
    case False
    obtain w ws where ws: "str_split sep cs = w # ws"
      using str_split_not_Nil [of sep cs] by (cases "str_split sep cs") auto
    with Cons.prems False have "p = c # w \<or> p \<in> set ws" by simp
    then show ?thesis
    proof
      assume "p = c # w"
      moreover have "sep \<notin> set w" using Cons.IH [of w] ws by simp
      ultimately show ?thesis using False by simp
    next
      assume "p \<in> set ws"
      then show ?thesis using Cons.IH [of p] ws by simp
    qed
  qed
qed

lemma str_split_chars: "\<Union> (set ` set (str_split sep s)) = set s - {sep}"
proof (induction s)
  case Nil
  then show ?case by simp
next
  case (Cons c cs)
  obtain w ws where ws: "str_split sep cs = w # ws"
    using str_split_not_Nil [of sep cs] by (cases "str_split sep cs") auto
  with Cons show ?case by (cases "c = sep") auto
qed

lemma str_split_none: "sep \<notin> set s \<Longrightarrow> str_split sep s = [s]"
  by (induction s) auto

lemma str_split_append_sep:
  "sep \<notin> set a \<Longrightarrow> str_split sep (a @ sep # b) = a # str_split sep b"
  by (induction a) auto

lemma str_replace_id: "old \<notin> set s \<Longrightarrow> str_replace old new s = s"
  by (induction s) (auto simp: str_replace_def)

lemma set_str_replace:
  "set (str_replace old new s) = (set s - {old}) \<union> (if old \<in> set s then {new} else {})"
  by (induction s) (auto simp: str_replace_def)

lemma str_replace_append:
  "str_replace old new (a @ b) = str_replace old new a @ str_replace old new b"
  by (simp add: str_replace_def)

lemma set_str_strip: "set (str_strip s) \<subseteq> set s"
proof
  fix c
  assume "c \<in> set (str_strip s)"
  then have "c \<in> set (dropWhile isspace (rev (dropWhile isspace s)))"
    by (simp add: str_strip_def)
  then have "c \<in> set (rev (dropWhile isspace s))" by (rule set_dropWhileD)
  then have "c \<in> set (dropWhile isspace s)" by simp
  then show "c \<in> set s" by (rule set_dropWhileD)
qed

lemma dropWhile_all_iff: "(\<forall>x\<in>set (dropWhile P xs). P x) \<longleftrightarrow> (\<forall>x\<in>set xs. P x)"
  by (induction xs) auto

lemma str_strip_Nil_iff: "str_strip s = [] \<longleftrightarrow> (\<forall>c\<in>set s. isspace c)"
proof -
  have "str_strip s = [] \<longleftrightarrow> (\<forall>c\<in>set (rev (dropWhile isspace s)). isspace c)"
    by (simp add: str_strip_def dropWhile_eq_Nil_conv)
  also have "\<dots> \<longleftrightarrow> (\<forall>c\<in>set s. isspace c)"
    by (simp only: set_rev dropWhile_all_iff)
  finally show ?thesis .
qed

lemma dropWhile_id: "xs = [] \<or> \<not> P (hd xs) \<Longrightarrow> dropWhile P xs = xs"
  by (cases xs) auto

lemma last_dropWhile: "dropWhile P xs \<noteq> [] \<Longrightarrow> last (dropWhile P xs) = last xs"
  by (induction xs) (auto split: if_splits)

lemma str_strip_ends:
  assumes "str_strip s \<noteq> []"
  shows "\<not> isspace (hd (str_strip s))" and "\<not> isspace (last (str_strip s))"
proof -
  let ?A = "dropWhile isspace s"
  let ?B = "dropWhile isspace (rev ?A)"
  from assms have B: "?B \<noteq> []" by (simp add: str_strip_def)
  have A: "?A \<noteq> []"
  proof
    assume a: "?A = []"
    have "?B = []" by (simp only: a rev.simps dropWhile.simps)
    with B show False by simp
  qed
  have "hd (str_strip s) = last ?B" using B by (simp add: str_strip_def hd_rev)
  also have "\<dots> = last (rev ?A)" using B by (rule last_dropWhile)
  also have "\<dots> = hd ?A" using A by (simp add: last_rev)
  finally have "hd (str_strip s) = hd ?A" .
  then show "\<not> isspace (hd (str_strip s))" using A hd_dropWhile [of isspace s] by simp
  have "last (str_strip s) = hd ?B" using B by (simp add: str_strip_def last_rev)
  then show "\<not> isspace (last (str_strip s))" using B hd_dropWhile [of isspace "rev ?A"] by simp
qed

lemma str_strip_fixed:
  assumes "s = [] \<or> (\<not> isspace (hd s) \<and> \<not> isspace (last s))"
  shows "str_strip s = s"
proof (cases "s = []")
  case True
  then show ?thesis by (simp add: str_strip_def)
next
  case False
  with assms have h: "\<not> isspace (hd s)" and l: "\<not> isspace (last s)" by auto
  have 1: "dropWhile isspace s = s" using h by (simp add: dropWhile_id)
  have "hd (rev s) = last s" using False by (simp add: hd_rev)
  then have 2: "dropWhile isspace (rev s) = rev s" using l by (simp add: dropWhile_id)
  show ?thesis by (simp add: str_strip_def 1 2)
qed

lemma str_strip_idem: "str_strip (str_strip s) = str_strip s"
  using str_strip_ends [of s] by (intro str_strip_fixed) auto

lemma has_content_iff:
  "has_content s \<longleftrightarrow> (\<exists>c\<in>set s. \<not> isspace c \<and> c \<noteq> DOT \<and> c \<noteq> EXCL \<and> c \<noteq> QUEST)"
  by (simp add: has_content_def list_ex_iff)

text \<open>The text a transcript is split at: both other terminators turned into dots.\<close>

lemma normalised_chars:
  "set (str_replace QUEST DOT (str_replace EXCL DOT t)) - {DOT} = set t - {DOT, EXCL, QUEST}"
  using terminators_distinct by (auto simp: set_str_replace split: if_splits)

lemma segment_text_elem:
  "e \<in> set (segment_text t) \<longleftrightarrow>
     (\<exists>p\<in>set (str_split DOT (str_replace QUEST DOT (str_replace EXCL DOT t))).
        str_strip p \<noteq> [] \<and> e = str_strip p)"
  by (auto simp: segment_text_def Let_def)

lemma segment_text_no_terminator:
  assumes "e \<in> set (segment_text t)"
  shows "\<not> has_terminator e"
proof -
  let ?n = "str_replace QUEST DOT (str_replace EXCL DOT t)"
  from assms obtain p where p: "p \<in> set (str_split DOT ?n)" and e: "e = str_strip p"
    by (auto simp: segment_text_elem)
  have "set p \<subseteq> \<Union> (set ` set (str_split DOT ?n))" using p by auto
  then have "set p \<subseteq> set t - {DOT, EXCL, QUEST}"
    by (simp add: str_split_chars normalised_chars)
  moreover have "set e \<subseteq> set p" unfolding e by (rule set_str_strip)
  ultimately show ?thesis by (auto simp: has_terminator_def)
qed

lemma segment_text_single:
  assumes "\<not> has_terminator s"
  shows "segment_text s = (if str_strip s = [] then [] else [str_strip s])"
proof -
  from assms have "str_replace QUEST DOT (str_replace EXCL DOT s) = s"
    by (simp add: has_terminator_def str_replace_id)
  moreover have "str_split DOT s = [s]"
    using assms by (simp add: has_terminator_def str_split_none)
  ultimately show ?thesis by (simp add: segment_text_def)
qed

lemma segment_text_not_Nil_iff: "segment_text t \<noteq> [] \<longleftrightarrow> has_content t"
proof -
  let ?n = "str_replace QUEST DOT (str_replace EXCL DOT t)"
  have "segment_text t \<noteq> [] \<longleftrightarrow> (\<exists>p\<in>set (str_split DOT ?n). str_strip p \<noteq> [])"
    by (auto simp: segment_text_def Let_def filter_empty_conv)
  also have "\<dots> \<longleftrightarrow> (\<exists>p\<in>set (str_split DOT ?n). \<exists>c\<in>set p. \<not> isspace c)"
    by (simp add: str_strip_Nil_iff)
  also have "\<dots> \<longleftrightarrow> (\<exists>c\<in>\<Union> (set ` set (str_split DOT ?n)). \<not> isspace c)"
    by auto
  also have "\<dots> \<longleftrightarrow> (\<exists>c\<in>set t - {DOT, EXCL, QUEST}. \<not> isspace c)"
    by (simp only: str_split_chars normalised_chars)
  also have "\<dots> \<longleftrightarrow> has_content t"
    by (auto simp: has_content_iff)
  finally show ?thesis .
qed

section \<open>Facts about the run\<close>

lemma assembler_calls_simps [simp]:
  "assembler_calls [] = []"
  "assembler_calls (xs @ ys) = assembler_calls xs @ assembler_calls ys"
  "assembler_calls (e # xs) = assembler_call e @ assembler_calls xs"
  by (simp_all add: assembler_calls_def)

lemma illustrator_calls_simps [simp]:
  "illustrator_calls [] = []"
  "illustrator_calls (xs @ ys) = illustrator_calls xs @ illustrator_calls ys"
  "illustrator_calls (e # xs) = illustrator_call e @ illustrator_calls xs"
  by (simp_all add: illustrator_calls_def)

lemma emit_simps [simp]:
  "log (emit e st) = log st @ [e]"
  "files (emit e st) = files st"
  by (simp_all add: emit_def)

lemma write_file_simps [simp]:
  "log (write_file p d st) = log st"
  "map_of (files (write_file p d st)) = (map_of (files st))(p \<mapsto> d)"
  by (simp_all add: write_file_def update_conv')

lemma read_file_emit [simp]: "read_file p (emit e st) = read_file p st"
  by (simp add: read_file_def)

text \<open>The illustrator.\<close>

lemma generate_image_result:
  "fst (generate_image_for_sentence env sentence sp i st) =
     (case fetch_image env i (full_prompt sentence sp) of
        Inl e \<Rightarrow> None | Inr d \<Rightarrow> Some (image_path_of i))"
  by (simp add: generate_image_for_sentence_def Let_def split: sum.splits)

lemma generate_image_log:
  "log (snd (generate_image_for_sentence env sentence sp i st)) =
     log st @ CallGenerate sentence i #
       (case fetch_image env i (full_prompt sentence sp) of
          Inl e \<Rightarrow> [StError (ImageError sentence e)] | Inr d \<Rightarrow> [])"
  by (simp add: generate_image_for_sentence_def Let_def split: sum.splits)

lemma generate_image_files:
  "map_of (files (snd (generate_image_for_sentence env sentence sp i st))) =
     (case fetch_image env i (full_prompt sentence sp) of
        Inl e \<Rightarrow> map_of (files st) | Inr d \<Rightarrow> (map_of (files st))(image_path_of i \<mapsto> d))"
  by (simp add: generate_image_for_sentence_def Let_def split: sum.splits)

declare str_of_nat.simps [simp del]

lemma set_str_of_nat: "set (str_of_nat n) \<subseteq> {48..57}"
proof (induction n rule: str_of_nat.induct)
  case (1 n)
  show ?case
  proof (cases "n < 10")
    case True
    then show ?thesis by (subst str_of_nat.simps) simp
  next
    case False
    have "n mod 10 < 10" by simp
    then have m: "48 + n mod 10 \<in> {48..57}" by simp
    from 1 False have "set (str_of_nat (n div 10)) \<subseteq> {48..57}" by simp
    with m False show ?thesis by (subst str_of_nat.simps) simp
  qed
qed

lemma py_temp: "py ''temp'' = [116, 101, 109, 112]"
  by (simp add: py_def)

lemma os_path_join_temp:
  "n \<noteq> [] \<Longrightarrow> SLASH \<notin> set n \<Longrightarrow> os_path_join (py ''temp'') n = py ''temp'' @ [SLASH] @ n"
  by (cases n) (auto simp: os_path_join_def py_def SLASH_def)

lemma in_dir_iff: "in_dir d p \<longleftrightarrow> (\<exists>n. p = d @ [SLASH] @ n \<and> n \<noteq> [] \<and> SLASH \<notin> set n)"
proof
  assume a: "in_dir d p"
  have "p = take (length d + 1) p @ drop (length d + 1) p" by simp
  with a show "\<exists>n. p = d @ [SLASH] @ n \<and> n \<noteq> [] \<and> SLASH \<notin> set n"
    unfolding in_dir_def by (metis append.assoc)
next
  assume "\<exists>n. p = d @ [SLASH] @ n \<and> n \<noteq> [] \<and> SLASH \<notin> set n"
  then show "in_dir d p" by (auto simp: in_dir_def)
qed

lemma image_name_plain:
  "py ''image_'' @ str_of_nat i @ py ''.png'' \<noteq> [] \<and>
   SLASH \<notin> set (py ''image_'' @ str_of_nat i @ py ''.png'')"
  using set_str_of_nat [of i] by (auto simp: py_def SLASH_def)

lemma image_path_in_temp: "in_dir (py ''temp'') (image_path_of i)"
  unfolding image_path_of_def in_dir_iff
  using image_name_plain [of i] os_path_join_temp by blast

lemma image_path_not_Nil: "image_path_of i \<noteq> []"
  using image_path_in_temp [of i] by (auto simp: in_dir_iff)


text \<open>The illustration loop.\<close>

lemma image_loop_paths:
  "fst (image_loop env sty tot ies acc st) =
     acc @ map (\<lambda>(i, sentence). image_path_of i) (filter (illustrated env sty) ies)"
proof (induction ies arbitrary: acc st)
  case Nil
  then show ?case by simp
next
  case (Cons a ies)
  obtain i sentence where a: "a = (i, sentence)" by (cases a)
  have r: "fst (generate_image_for_sentence env sentence (style_options sty) i st') =
      (if illustrated env sty (i, sentence) then Some (image_path_of i) else None)" for st'
    by (simp add: generate_image_result illustrated_def split: sum.splits)
  show ?case
    unfolding a by (simp add: Let_def split_def r Cons.IH image_path_not_Nil)
qed

lemma image_loop_illustrator_calls:
  "illustrator_calls (log (snd (image_loop env sty tot ies acc st))) =
     illustrator_calls (log st) @ map (\<lambda>(i, sentence). (sentence, i)) ies"
proof (induction ies arbitrary: acc st)
  case Nil
  then show ?case by simp
next
  case (Cons a ies)
  obtain i sentence where a: "a = (i, sentence)" by (cases a)
  show ?case
    unfolding a by (simp add: Let_def split_def Cons.IH generate_image_log split: sum.splits)
qed

lemma image_loop_assembler_calls:
  "assembler_calls (log (snd (image_loop env sty tot ies acc st))) = assembler_calls (log st)"
proof (induction ies arbitrary: acc st)
  case Nil
  then show ?case by simp
next
  case (Cons a ies)
  obtain i sentence where a: "a = (i, sentence)" by (cases a)
  show ?case
    unfolding a by (simp add: Let_def split_def Cons.IH generate_image_log split: sum.splits)
qed

lemma image_loop_files:
  "\<not> in_dir (py ''temp'') p \<Longrightarrow>
   map_of (files (snd (image_loop env sty tot ies acc st))) p = map_of (files st) p"
proof (induction ies arbitrary: acc st)
  case Nil
  then show ?case by simp
next
  case (Cons a ies)
  obtain i sentence where a: "a = (i, sentence)" by (cases a)
  from Cons.prems have "p \<noteq> image_path_of i" using image_path_in_temp [of i] by auto
  with Cons show ?case
    unfolding a by (simp add: Let_def split_def generate_image_files split: sum.splits)
qed

text \<open>The assembler.\<close>

lemma image_loads_emit [simp]: "image_loads env (emit e st) = image_loads env st"
  by (rule ext) (simp add: image_loads_def ImageClip_def)

lemma ImageClip_loads:
  "image_loads env st p \<Longrightarrow>
   ImageClip env p st = Inr \<lparr>image = p, duration = None, effects = []\<rparr>"
  by (auto simp: image_loads_def ImageClip_def split: sum.splits)

lemma clips_loop_eq:
  "list_all (image_loads env st) ps \<Longrightarrow>
   clips_loop env st d ps clips =
     Inr (clips @ map (\<lambda>p. \<lparr>image = p, duration = Some d, effects = [FadeIn (1 / 2)]\<rparr>) ps)"
  by (induction ps arbitrary: clips)
    (simp_all add: fadein_def set_duration_def ImageClip_loads)

lemma clips_loop_fails:
  "\<not> list_all (image_loads env st) ps \<Longrightarrow> \<exists>e. clips_loop env st d ps clips = Inl e"
proof (induction ps arbitrary: clips)
  case Nil
  then show ?case by simp
next
  case (Cons p ps)
  show ?case
  proof (cases "ImageClip env p st")
    case (Inl e)
    then show ?thesis by simp
  next
    case (Inr c)
    then have "image_loads env st p" by (simp add: image_loads_def)
    with Cons.prems have "\<not> list_all (image_loads env st) ps" by simp
    with Cons.IH Inr show ?thesis by simp
  qed
qed

lemma create_video_assembler_calls:
  "assembler_calls (log (snd (create_video_from_images env ps a out st))) =
     assembler_calls (log st) @ [(ps, a, out)]"
  by (simp add: create_video_from_images_def Let_def split: sum.splits)

lemma create_video_illustrator_calls:
  "illustrator_calls (log (snd (create_video_from_images env ps a out st))) =
     illustrator_calls (log st)"
  by (simp add: create_video_from_images_def Let_def split: sum.splits)

lemma create_video_files:
  "map_of (files (snd (create_video_from_images env ps a out st))) p =
     (if p = out then map_of (files (snd (create_video_from_images env ps a out st))) out
      else map_of (files st) p)"
  by (simp add: create_video_from_images_def Let_def split: sum.splits)

lemma create_video_returns:
  "fst (create_video_from_images env ps a out st) = Inr v \<Longrightarrow>
   v = out \<and> map_of (files (snd (create_video_from_images env ps a out st))) out \<noteq> None"
  by (auto simp: create_video_from_images_def Let_def split: sum.splits if_splits)

text \<open>The clean-up.\<close>

lemma os_remove_log: "log (snd (os_remove p st)) = log st"
  by (simp add: os_remove_def split: option.splits)

lemma os_remove_files:
  "fst (os_remove p st) = Inr u \<Longrightarrow>
   map_of (files (snd (os_remove p st))) = (map_of (files st))(p := None)"
  by (auto simp: os_remove_def delete_conv' split: option.splits)

lemma remove_loop_log: "log (snd (remove_loop names st)) = log st"
proof (induction names arbitrary: st)
  case Nil
  then show ?case by simp
next
  case (Cons n names)
  show ?case
  proof (cases "os_remove (os_path_join (py ''temp'') n) st")
    case (Pair r st1)
    then have "log st1 = log st" using os_remove_log [of "os_path_join (py ''temp'') n" st] by simp
    with Pair Cons show ?thesis by (cases r) simp_all
  qed
qed

lemma remove_loop_files:
  "fst (remove_loop names st) = Inr u \<Longrightarrow>
   map_of (files (snd (remove_loop names st))) p =
     (if p \<in> os_path_join (py ''temp'') ` set names then None else map_of (files st) p)"
proof (induction names arbitrary: st)
  case Nil
  then show ?case by simp
next
  case (Cons n names)
  show ?case
  proof (cases "os_remove (os_path_join (py ''temp'') n) st")
    case (Pair r st1)
    show ?thesis
    proof (cases r)
      case (Inl e)
      with Pair Cons.prems show ?thesis by simp
    next
      case (Inr w)
      with Pair have f: "map_of (files st1) = (map_of (files st))(os_path_join (py ''temp'') n := None)"
        using os_remove_files [of "os_path_join (py ''temp'') n" st w] by simp
      from Pair Inr Cons.prems have "fst (remove_loop names st1) = Inr u" by simp
      from Cons.IH [OF this] Pair Inr f show ?thesis by auto
    qed
  qed
qed

lemma os_listdir_complete:
  assumes "in_dir d p" and "map_of fs p \<noteq> None"
  shows "drop (length d + 1) p \<in> set (os_listdir d fs)"
proof -
  from assms(2) have "p \<in> fst ` set fs" by (simp add: map_of_eq_None_iff)
  with assms(1) show ?thesis by (auto simp: os_listdir_def)
qed

lemma in_dir_temp_join:
  assumes "in_dir (py ''temp'') p"
  shows "p = os_path_join (py ''temp'') (drop (length (py ''temp'') + 1) p)"
proof -
  from assms obtain n where n: "p = py ''temp'' @ [SLASH] @ n" "n \<noteq> []" "SLASH \<notin> set n"
    by (auto simp: in_dir_iff)
  then have "drop (length (py ''temp'') + 1) p = n" by simp
  with n show ?thesis by (simp add: os_path_join_temp)
qed

lemma os_listdir_in_dir:
  assumes "n \<in> set (os_listdir (py ''temp'') fs)"
  shows "in_dir (py ''temp'') (os_path_join (py ''temp'') n)"
proof -
  from assms obtain p where p: "in_dir (py ''temp'') p" "n = drop (length (py ''temp'') + 1) p"
    by (auto simp: os_listdir_def)
  with in_dir_temp_join [OF p(1)] show ?thesis by simp
qed

text \<open>The handler.\<close>

lemma transcribe_written:
  "transcribe_audio env p (emit e2 (emit e1 (write_file p buffer st0))) =
     (transcriptions_create env buffer, emit (CallTranscribe p) (emit e2 (emit e1 (write_file p buffer st0))))"
  by (simp add: transcribe_audio_def read_file_def Let_def)

lemma on_click_transcribed:
  assumes "transcriptions_create env buffer = Inr text"
  shows "on_click env (Some (name, buffer)) sty fs0 =
     (let st4 = transcribed name buffer text fs0; sentences = segment_text text
      in if sentences = [] then (Stopped, emit (StError NoSentences) st4)
         else
           let (image_paths, st5) =
                 image_loop env sty (length sentences) (enumerate 0 sentences) [] st4
           in if image_paths = [] then (Stopped, emit (StError NoImages) st5)
              else finish (create_video_from_images env image_paths (audio_path_of name)
                       (py ''final_animation.mp4'') (emit (Progress 95) st5)))"
proof -
  have st4: "emit (Expander text) (emit (CallTranscribe (audio_path_of name))
      (emit (Progress 10) (emit (Progress 0)
        (write_file (audio_path_of name) buffer \<lparr>files = fs0, log = []\<rparr>)))) =
      transcribed name buffer text fs0"
    by (simp add: transcribed_def emit_def write_file_def)
  show ?thesis
    unfolding on_click_def option.case prod.case Let_def audio_path_of_def [symmetric]
      transcribe_written assms sum.case st4 finish_def
    by (rule refl)
qed

lemma remove_loop_log_eq: "remove_loop names st = (r, st') \<Longrightarrow> log st' = log st"
  using remove_loop_log [of names st] by simp

lemma finish_assembler_calls:
  "assembler_calls (log (snd (finish (r, st)))) = assembler_calls (log st)"
  by (auto simp: finish_def Let_def split: sum.splits prod.splits dest: remove_loop_log_eq)

lemma finish_illustrator_calls:
  "illustrator_calls (log (snd (finish (r, st)))) = illustrator_calls (log st)"
  by (auto simp: finish_def Let_def split: sum.splits prod.splits dest: remove_loop_log_eq)

text \<open>The run once the transcript has sentences of which one at least is illustrated.\<close>

lemma on_click_illustrated:
  assumes t: "transcriptions_create env buffer = Inr text"
    and k: "filter (illustrated env sty) (enumerate 0 (segment_text text)) \<noteq> []"
  shows "on_click env (Some (name, buffer)) sty fs0 =
      finish (create_video_from_images env
        (map (\<lambda>(i, sentence). image_path_of i)
           (filter (illustrated env sty) (enumerate 0 (segment_text text))))
        (audio_path_of name) (py ''final_animation.mp4'')
        (emit (Progress 95)
           (snd (image_loop env sty (length (segment_text text))
                   (enumerate 0 (segment_text text)) [] (transcribed name buffer text fs0)))))"
proof -
  let ?S = "segment_text text"
  let ?L = "image_loop env sty (length ?S) (enumerate 0 ?S) [] (transcribed name buffer text fs0)"
  from k have ne: "?S \<noteq> []" by auto
  have p: "fst ?L = map (\<lambda>(i, sentence). image_path_of i)
      (filter (illustrated env sty) (enumerate 0 ?S))"
    by (simp add: image_loop_paths)
  with k have pne: "fst ?L \<noteq> []" by simp
  show ?thesis
    using ne pne unfolding on_click_transcribed [OF t] Let_def split_def p by simp
qed

lemma example_text: "segment_text (py ''Hi. Ok?'') = [py ''Hi'', py ''Ok'']"
  by (simp add: segment_text_def py_def DOT_def EXCL_def QUEST_def str_replace_def
      str_strip_def isspace_def)

text \<open>The end of a run.\<close>

lemma on_click_transcription_fails:
  assumes "transcriptions_create env buffer = Inl e"
  shows "fst (on_click env (Some (name, buffer)) sty fs0) = Raised e"
  unfolding on_click_def option.case prod.case Let_def transcribe_written assms
  by simp

lemma on_click_completed:
  assumes "fst (on_click env (Some (name, buffer)) sty fs0) = Completed"
  shows "\<exists>text. transcriptions_create env buffer = Inr text \<and>
    filter (illustrated env sty) (enumerate 0 (segment_text text)) \<noteq> []"
proof (cases "transcriptions_create env buffer")
  case (Inl e)
  with assms on_click_transcription_fails [OF Inl, of name sty fs0] show ?thesis by simp
next
  case (Inr tr)
  have "filter (illustrated env sty) (enumerate 0 (segment_text tr)) \<noteq> []"
  proof
    assume f: "filter (illustrated env sty) (enumerate 0 (segment_text tr)) = []"
    have "fst (on_click env (Some (name, buffer)) sty fs0) = Stopped"
      unfolding on_click_transcribed [OF Inr] Let_def split_def
      by (simp add: image_loop_paths f)
    with assms show False by simp
  qed
  with Inr show ?thesis by simp
qed

lemma cleaned:
  "(if p \<in> os_path_join (py ''temp'') ` set (os_listdir (py ''temp'') fs) then None
    else map_of fs p) =
   (if in_dir (py ''temp'') p then None else map_of fs p)"
proof (cases "in_dir (py ''temp'') p")
  case True
  show ?thesis
  proof (cases "map_of fs p")
    case None
    with True show ?thesis by simp
  next
    case (Some d)
    then have "drop (length (py ''temp'') + 1) p \<in> set (os_listdir (py ''temp'') fs)"
      using os_listdir_complete [OF True, of fs] by simp
    then have "p \<in> os_path_join (py ''temp'') ` set (os_listdir (py ''temp'') fs)"
      using in_dir_temp_join [OF True] by blast
    with True show ?thesis by simp
  qed
next
  case False
  then have "p \<notin> os_path_join (py ''temp'') ` set (os_listdir (py ''temp'') fs)"
    using os_listdir_in_dir by blast
  with False show ?thesis by simp
qed

lemma finish_completed:
  assumes "fst (finish (r, st)) = Completed"
  shows "(\<exists>v. r = Inr v) \<and>
    map_of (files (snd (finish (r, st)))) p =
      (if in_dir (py ''temp'') p then None else map_of (files st) p)"
proof (cases r)
  case (Inl e)
  with assms show ?thesis by (simp add: finish_def)
next
  case (Inr v)
  let ?st7 = "emit StHeader (emit StSuccess (emit ProgressEmpty (emit (Progress 100) st)))"
  show ?thesis
  proof (cases "read_file v ?st7")
    case (Inl e)
    with assms Inr show ?thesis by (simp add: finish_def Let_def)
  next
    case b: (Inr video_bytes)
    let ?st8 = "emit (StDownloadButton video_bytes) (emit (StVideo video_bytes) ?st7)"
    let ?R = "remove_loop (os_listdir (py ''temp'') (files ?st8)) ?st8"
    have fin: "finish (r, st) =
        (case ?R of (Inl e, st9) \<Rightarrow> (Raised e, st9) | (Inr u, st9) \<Rightarrow> (Completed, st9))"
      using Inr b by (simp add: finish_def Let_def)
    obtain q st9 where R: "?R = (q, st9)" by (cases ?R)
    with assms fin obtain u where q: "q = Inr u" by (cases q) simp_all
    have "map_of (files st9) p =
        (if p \<in> os_path_join (py ''temp'') ` set (os_listdir (py ''temp'') (files ?st8))
         then None else map_of (files ?st8) p)"
      using remove_loop_files [of "os_listdir (py ''temp'') (files ?st8)" ?st8 u p] R q by simp
    then have "map_of (files st9) p =
        (if in_dir (py ''temp'') p then None else map_of (files st) p)"
      by (simp only: cleaned emit_simps)
    with fin R q Inr show ?thesis by simp
  qed
qed

lemma output_not_in_temp: "\<not> in_dir (py ''temp'') (py ''final_animation.mp4'')"
  by (simp add: in_dir_def py_def)

lemma image_loop_files_other:
  "\<forall>(i, sentence) \<in> set ies. p \<noteq> image_path_of i \<Longrightarrow>
   map_of (files (snd (image_loop env sty tot ies acc st))) p = map_of (files st) p"
proof (induction ies arbitrary: acc st)
  case Nil
  then show ?case by simp
next
  case (Cons a ies)
  obtain i sentence where a: "a = (i, sentence)" by (cases a)
  from Cons.prems a have "p \<noteq> image_path_of i" by simp
  moreover from Cons.prems have "\<forall>(i, sentence) \<in> set ies. p \<noteq> image_path_of i" by simp
  ultimately show ?case
    using Cons.IH unfolding a
    by (simp add: Let_def split_def generate_image_files split: sum.splits)
qed

lemma os_listdir_names:
  assumes "n \<in> set (os_listdir (py ''temp'') fs)"
  shows "n \<noteq> [] \<and> SLASH \<notin> set n \<and> map_of fs (os_path_join (py ''temp'') n) \<noteq> None"
proof -
  from assms obtain p where p: "p \<in> fst ` set fs" "in_dir (py ''temp'') p"
      "n = drop (length (py ''temp'') + 1) p"
    by (auto simp: os_listdir_def)
  from p(2,3) have "n \<noteq> [] \<and> SLASH \<notin> set n" by (simp add: in_dir_def)
  moreover from p have "os_path_join (py ''temp'') n = p" using in_dir_temp_join by simp
  moreover from p(1) have "map_of fs p \<noteq> None" by (simp add: map_of_eq_None_iff)
  ultimately show ?thesis by simp
qed

lemma remove_loop_ok:
  assumes "distinct (map (os_path_join (py ''temp'')) names)"
    and "\<forall>n\<in>set names. map_of (files st) (os_path_join (py ''temp'') n) \<noteq> None"
  shows "fst (remove_loop names st) = Inr ()"
  using assms
proof (induction names arbitrary: st)
  case Nil
  then show ?case by simp
next
  case (Cons n names)
  let ?p = "os_path_join (py ''temp'') n"
  let ?st1 = "st\<lparr>files := AList.delete ?p (files st)\<rparr>"
  from Cons.prems(2) obtain d where d: "map_of (files st) ?p = Some d" by auto
  then have r: "os_remove ?p st = (Inr (), ?st1)" by (simp add: os_remove_def)
  have "\<forall>m\<in>set names. map_of (files ?st1) (os_path_join (py ''temp'') m) \<noteq> None"
  proof
    fix m
    assume m: "m \<in> set names"
    have "?p \<notin> os_path_join (py ''temp'') ` set names"
      using Cons.prems(1) by simp
    moreover have "os_path_join (py ''temp'') m \<in> os_path_join (py ''temp'') ` set names"
      using m by (rule imageI)
    ultimately have "os_path_join (py ''temp'') m \<noteq> ?p" by metis
    with Cons.prems(2) m show "map_of (files ?st1) (os_path_join (py ''temp'') m) \<noteq> None"
      by (simp add: delete_conv')
  qed
  moreover from Cons.prems(1) have "distinct (map (os_path_join (py ''temp'')) names)" by simp
  ultimately have "fst (remove_loop names ?st1) = Inr ()" by (rule Cons.IH [rotated])
  with r show ?case by simp
qed

lemma remove_loop_listdir:
  "fst (remove_loop (os_listdir (py ''temp'') (files st)) st) = Inr ()"
proof (rule remove_loop_ok)
  have "inj_on (os_path_join (py ''temp'')) (set (os_listdir (py ''temp'') (files st)))"
  proof (rule inj_onI)
    fix a b
    assume "a \<in> set (os_listdir (py ''temp'') (files st))"
      and "b \<in> set (os_listdir (py ''temp'') (files st))"
      and e: "os_path_join (py ''temp'') a = os_path_join (py ''temp'') b"
    then have "os_path_join (py ''temp'') a = py ''temp'' @ [SLASH] @ a"
      and "os_path_join (py ''temp'') b = py ''temp'' @ [SLASH] @ b"
      using os_listdir_names os_path_join_temp by blast+
    with e show "a = b" by simp
  qed
  moreover have "distinct (os_listdir (py ''temp'') (files st))"
    by (simp add: os_listdir_def)
  ultimately show "distinct (map (os_path_join (py ''temp'')) (os_listdir (py ''temp'') (files st)))"
    by (simp add: distinct_map)
  show "\<forall>n\<in>set (os_listdir (py ''temp'') (files st)).
      map_of (files st) (os_path_join (py ''temp'') n) \<noteq> None"
    using os_listdir_names by blast
qed

lemma finish_completes:
  assumes "map_of (files st) v = Some video_bytes"
  shows "fst (finish (Inr v, st)) = Completed"
proof -
  let ?st8 = "emit (StDownloadButton video_bytes) (emit (StVideo video_bytes)
      (emit StHeader (emit StSuccess (emit ProgressEmpty (emit (Progress 100) st)))))"
  from remove_loop_listdir [of ?st8]
  obtain st9 where "remove_loop (os_listdir (py ''temp'') (files ?st8)) ?st8 = (Inr (), st9)"
    by (cases "remove_loop (os_listdir (py ''temp'') (files ?st8)) ?st8") auto
  with assms show ?thesis by (simp add: finish_def Let_def read_file_def)
qed

lemma create_video_ok:
  assumes "map_of (files st) a = Some data"
    and "audio_decode env data = Inr d"
    and "ps \<noteq> []"
    and "\<And>v. encode env v = Inr video_bytes"
    and "list_all (image_loads env st) ps"
  shows "fst (create_video_from_images env ps a out st) = Inr out \<and>
    map_of (files (snd (create_video_from_images env ps a out st))) out = Some video_bytes"
  using assms
  by (simp add: create_video_from_images_def AudioFileClip_def read_file_def Let_def
      clips_loop_eq)

lemma image_loop_keeps:
  "map_of (files st) p \<noteq> None \<Longrightarrow>
   map_of (files (snd (image_loop env sty tot ies acc st))) p \<noteq> None"
proof (induction ies arbitrary: acc st)
  case Nil
  then show ?case by simp
next
  case (Cons a ies)
  obtain i sentence where a: "a = (i, sentence)" by (cases a)
  let ?g = "generate_image_for_sentence env sentence (style_options sty) i
              (emit (Progress (10 + 80 * (i + 1) div tot)) st)"
  from Cons.prems have "map_of (files (snd ?g)) p \<noteq> None"
    by (simp add: generate_image_files split: sum.splits)
  then show ?case
    unfolding a using Cons.IH by (simp add: Let_def split_def)
qed

lemma image_loop_written:
  "(i, sentence) \<in> set ies \<Longrightarrow> illustrated env sty (i, sentence) \<Longrightarrow>
   map_of (files (snd (image_loop env sty tot ies acc st))) (image_path_of i) \<noteq> None"
proof (induction ies arbitrary: acc st)
  case Nil
  then show ?case by simp
next
  case (Cons a ies)
  obtain j s where a: "a = (j, s)" by (cases a)
  let ?g = "generate_image_for_sentence env s (style_options sty) j
              (emit (Progress (10 + 80 * (j + 1) div tot)) st)"
  show ?case
  proof (cases "(i, sentence) = a")
    case True
    with a Cons.prems(2) have "map_of (files (snd ?g)) (image_path_of i) \<noteq> None"
      by (auto simp: generate_image_files illustrated_def split: sum.splits)
    then show ?thesis
      unfolding a using image_loop_keeps by (simp add: Let_def split_def)
  next
    case False
    with Cons.prems(1) have "(i, sentence) \<in> set ies" by simp
    then show ?thesis
      unfolding a using Cons.IH Cons.prems(2) by (simp add: Let_def split_def)
  qed
qed

text \<open>A run that completes: everything outside works.\<close>

lemma on_click_completes:
  assumes t: "transcriptions_create env buffer = Inr tr"
    and k: "filter (illustrated env sty) (enumerate 0 (segment_text tr)) \<noteq> []"
    and a: "\<forall>(i, sentence) \<in> set (enumerate 0 (segment_text tr)). audio_path_of name \<noteq> image_path_of i"
    and d: "audio_decode env buffer = Inr d"
    and e: "\<And>v. encode env v = Inr video_bytes"
    and g: "\<And>data. image_decode env data = Inr ()"
  shows "fst (on_click env (Some (name, buffer)) sty fs0) = Completed"
proof -
  let ?st4 = "transcribed name buffer tr fs0"
  let ?st5 = "snd (image_loop env sty (length (segment_text tr))
                (enumerate 0 (segment_text tr)) [] ?st4)"
  let ?ps = "map (\<lambda>(i, sentence). image_path_of i)
               (filter (illustrated env sty) (enumerate 0 (segment_text tr)))"
  let ?cv = "create_video_from_images env ?ps (audio_path_of name) (py ''final_animation.mp4'')
               (emit (Progress 95) ?st5)"
  have "map_of (files ?st5) (audio_path_of name) = map_of (files ?st4) (audio_path_of name)"
    using a by (rule image_loop_files_other)
  then have au: "map_of (files (emit (Progress 95) ?st5)) (audio_path_of name) = Some buffer"
    by (simp add: transcribed_def update_conv')
  have "image_loads env ?st5 p" if "p \<in> set ?ps" for p
  proof -
    from that obtain i sentence
      where "(i, sentence) \<in> set (enumerate 0 (segment_text tr))"
        and "illustrated env sty (i, sentence)" and "p = image_path_of i"
      by auto
    then have "map_of (files ?st5) p \<noteq> None" using image_loop_written by blast
    then show ?thesis by (auto simp: image_loads_def ImageClip_def read_file_def g)
  qed
  then have "list_all (image_loads env (emit (Progress 95) ?st5)) ?ps"
    by (simp add: list_all_iff)
  from create_video_ok [OF au d _ e this, of "py ''final_animation.mp4''"] k
  have cv: "fst ?cv = Inr (py ''final_animation.mp4'')"
    "map_of (files (snd ?cv)) (py ''final_animation.mp4'') = Some video_bytes"
    by simp_all
  have "on_click env (Some (name, buffer)) sty fs0 = finish (fst ?cv, snd ?cv)"
    using on_click_illustrated [OF t k, of name fs0] by simp
  also have "fst \<dots> = Completed"
    unfolding cv(1) using cv(2) by (rule finish_completes)
  finally show ?thesis .
qed

text \<open>The assembler is entered with one image at least, whatever the run.\<close>

lemma on_click_transcription_fails_log:
  assumes "transcriptions_create env buffer = Inl e"
  shows "assembler_calls (log (snd (on_click env (Some (name, buffer)) sty fs0))) = []"
  unfolding on_click_def option.case prod.case Let_def transcribe_written assms
  by (simp add: write_file_def)

lemma assembler_never_empty:
  "list_all (\<lambda>(image_paths, audio_path, output_path). image_paths \<noteq> [])
     (assembler_calls (log (snd (on_click env uploaded_file sty fs0))))"
proof (cases uploaded_file)
  case None
  then show ?thesis by (simp add: on_click_def)
next
  case (Some u)
  obtain name buffer where u: "u = (name, buffer)" by (cases u)
  show ?thesis
  proof (cases "transcriptions_create env buffer")
    case (Inl e)
    then show ?thesis unfolding Some u by (simp add: on_click_transcription_fails_log)
  next
    case (Inr tr)
    let ?S = "segment_text tr"
    let ?L = "image_loop env sty (length ?S) (enumerate 0 ?S) [] (transcribed name buffer tr fs0)"
    show ?thesis
    proof (cases "filter (illustrated env sty) (enumerate 0 ?S) = []")
      case False
      have "assembler_calls (log (snd (on_click env (Some (name, buffer)) sty fs0))) =
          [(map (\<lambda>(i, sentence). image_path_of i) (filter (illustrated env sty) (enumerate 0 ?S)),
            audio_path_of name, py ''final_animation.mp4'')]"
        unfolding on_click_illustrated [OF Inr False]
        by (simp add: finish_assembler_calls [of "fst r" "snd r" for r, simplified]
            create_video_assembler_calls image_loop_assembler_calls transcribed_def)
      with False show ?thesis unfolding Some u by simp
    next
      case True
      have "assembler_calls (log (snd (on_click env (Some (name, buffer)) sty fs0))) = []"
        unfolding on_click_transcribed [OF Inr] Let_def split_def
        by (simp add: image_loop_paths True image_loop_assembler_calls transcribed_def)
      then show ?thesis unfolding Some u by simp
    qed
  qed
qed

section \<open>Claims about the segmenter\<close>

text \<open>
  C1, as stated: a transcript with a terminator gives a non-empty list. It fails on the
  transcript \<^verbatim>\<open>"."\<close>: both pieces of the split are empty and are dropped.
\<close>

theorem C1_counterexample:
  "has_terminator (py ''.'') \<and> segment_text (py ''.'') = []"
  by (simp add: has_terminator_def segment_text_def py_def DOT_def EXCL_def QUEST_def
      str_replace_def str_strip_def)

text \<open>
  C1, amended: the result is non-empty exactly when the transcript holds a code point that
  is neither whitespace nor a terminator, and every element of the result is non-empty
  after trimming.
\<close>

theorem C1_segment_text_nonempty:
  "(segment_text t \<noteq> [] \<longleftrightarrow> has_content t) \<and>
   (\<forall>e\<in>set (segment_text t). str_strip e \<noteq> [])"
proof
  show "segment_text t \<noteq> [] \<longleftrightarrow> has_content t" by (rule segment_text_not_Nil_iff)
  show "\<forall>e\<in>set (segment_text t). str_strip e \<noteq> []"
    by (auto simp: segment_text_elem str_strip_idem)
qed

theorem C1_segment_text_nonempty_witness:
  "has_content (py ''Hi. Ok?'') \<and> segment_text (py ''Hi. Ok?'') = [py ''Hi'', py ''Ok''] \<and>
   str_strip (py ''Hi'') \<noteq> [] \<and> str_strip (py ''Ok'') \<noteq> []"
proof -
  have v: "segment_text (py ''Hi. Ok?'') = [py ''Hi'', py ''Ok'']"
    by (simp add: segment_text_def py_def DOT_def EXCL_def QUEST_def str_replace_def
        str_strip_def isspace_def)
  from C1_segment_text_nonempty [of "py ''Hi. Ok?''"] show ?thesis
    unfolding v by simp
qed

text \<open>
  C7: the transcript \<^verbatim>\<open>"helloworld"\<close> has no terminator and comes back whole, as the
  one sentence of the result.
\<close>

theorem C7_helloworld:
  "\<not> has_terminator (py ''helloworld'') \<and>
   segment_text (py ''helloworld'') = [py ''helloworld'']"
  by (simp add: has_terminator_def segment_text_def py_def DOT_def EXCL_def QUEST_def
      str_replace_def str_strip_def isspace_def)

text \<open>
  C8, as stated: \<open>segment_text (s + ".") = [s]\<close> for every \<open>s\<close> without terminator. It
  fails when \<open>s\<close> has whitespace at an end (the sentence comes back trimmed), here for
  \<^verbatim>\<open>" a"\<close>.
\<close>

theorem C8_counterexample:
  "\<not> has_terminator (py '' a'') \<and>
   segment_text (py '' a'' @ [DOT]) = [py ''a''] \<and>
   segment_text (py '' a'' @ [DOT]) \<noteq> [py '' a'']"
  by (simp add: has_terminator_def segment_text_def py_def DOT_def EXCL_def QUEST_def
      str_replace_def str_strip_def isspace_def)

text \<open>
  C8, amended: for \<open>s\<close> without terminator, \<open>segment_text (s + ".")\<close> is the one-element
  list of \<open>s\<close> trimmed, or the empty list when nothing is left of \<open>s\<close> after trimming; it
  is \<open>[s]\<close> when \<open>s\<close> is non-empty and has no whitespace at either end.
\<close>

theorem C8_segment_text_terminated:
  assumes "\<not> has_terminator s"
  shows "segment_text (s @ [DOT]) = (if str_strip s = [] then [] else [str_strip s]) \<and>
    (s \<noteq> [] \<and> \<not> isspace (hd s) \<and> \<not> isspace (last s) \<longrightarrow> segment_text (s @ [DOT]) = [s])"
proof -
  from assms have d: "DOT \<notin> set s" "EXCL \<notin> set s" "QUEST \<notin> set s"
    by (simp_all add: has_terminator_def)
  have "str_replace QUEST DOT (str_replace EXCL DOT (s @ [DOT])) = s @ [DOT]"
    using d terminators_distinct by (simp add: str_replace_id)
  moreover have "str_split DOT (s @ [DOT]) = [s, []]"
    using d str_split_append_sep [of DOT s "[]"] by simp
  ultimately have 1: "segment_text (s @ [DOT]) = (if str_strip s = [] then [] else [str_strip s])"
    by (simp add: segment_text_def str_strip_def)
  then show ?thesis using str_strip_fixed [of s] by auto
qed

theorem C8_segment_text_terminated_witness:
  "\<not> has_terminator (py ''Hello world'') \<and>
   segment_text (py ''Hello world'' @ [DOT]) = [py ''Hello world'']"
proof -
  have h: "\<not> has_terminator (py ''Hello world'')"
    by (simp add: has_terminator_def py_def DOT_def EXCL_def QUEST_def)
  have e: "py ''Hello world'' \<noteq> [] \<and> \<not> isspace (hd (py ''Hello world'')) \<and>
      \<not> isspace (last (py ''Hello world''))"
    by (simp add: py_def isspace_def)
  from C8_segment_text_terminated [OF h] e h show ?thesis by blast
qed

text \<open>
  C9: an element of a result holds no terminator, has no whitespace at either end, and is
  segmented into itself alone.
\<close>

theorem C9_segment_text_elements:
  assumes "e \<in> set (segment_text t)"
  shows "\<not> has_terminator e \<and> e \<noteq> [] \<and> \<not> isspace (hd e) \<and> \<not> isspace (last e) \<and>
    str_strip e = e \<and> segment_text e = [e]"
proof -
  have nt: "\<not> has_terminator e" using assms by (rule segment_text_no_terminator)
  from assms obtain p where p: "str_strip p \<noteq> []" "e = str_strip p"
    by (auto simp: segment_text_elem)
  then have ne: "e \<noteq> [] \<and> \<not> isspace (hd e) \<and> \<not> isspace (last e)"
    using str_strip_ends [of p] by simp
  have st: "str_strip e = e" using p by (simp add: str_strip_idem)
  have "segment_text e = [e]" using segment_text_single [OF nt] st ne by simp
  with nt ne st show ?thesis by simp
qed

theorem C9_segment_text_elements_witness:
  "py ''This is a test'' \<in> set (segment_text (py ''Hello world. This is a test.'')) \<and>
   \<not> has_terminator (py ''This is a test'') \<and>
   str_strip (py ''This is a test'') = py ''This is a test'' \<and>
   segment_text (py ''This is a test'') = [py ''This is a test'']"
proof -
  have m: "py ''This is a test'' \<in> set (segment_text (py ''Hello world. This is a test.''))"
    by (simp add: segment_text_def py_def DOT_def EXCL_def QUEST_def str_replace_def
        str_strip_def isspace_def)
  from C9_segment_text_elements [OF m] m show ?thesis by blast
qed

section \<open>Claims about the run\<close>

text \<open>
  C5: when the transcript has no sentence, the run shows the error message for it and stops
  there: the log ends with the message, and neither the illustrator nor the assembler is
  entered.
\<close>

theorem C5_empty_segmentation:
  assumes "transcriptions_create env buffer = Inr text" and "segment_text text = []"
  shows "fst (on_click env (Some (name, buffer)) sty fs0) = Stopped \<and>
    log (snd (on_click env (Some (name, buffer)) sty fs0)) =
      [Progress 0, Progress 10, CallTranscribe (os_path_join (py ''temp'') name),
       Expander text, StError NoSentences] \<and>
    illustrator_calls (log (snd (on_click env (Some (name, buffer)) sty fs0))) = [] \<and>
    assembler_calls (log (snd (on_click env (Some (name, buffer)) sty fs0))) = []"
  by (simp add: on_click_transcribed [OF assms(1)] assms(2) transcribed_def audio_path_of_def)

theorem C5_empty_segmentation_witness:
  "transcriptions_create (example_env (py '' . '') (\<lambda>i. True)) [1, 2] = Inr (py '' . '') \<and>
   segment_text (py '' . '') = [] \<and>
   fst (on_click (example_env (py '' . '') (\<lambda>i. True)) (Some (py ''a.mp3'', [1, 2])) Padrao [])
     = Stopped \<and>
   assembler_calls (log (snd (on_click (example_env (py '' . '') (\<lambda>i. True))
     (Some (py ''a.mp3'', [1, 2])) Padrao []))) = []"
proof -
  have h1: "transcriptions_create (example_env (py '' . '') (\<lambda>i. True)) [1, 2] = Inr (py '' . '')"
    by (simp add: example_env_def)
  have h2: "segment_text (py '' . '') = []"
    by (simp add: segment_text_def py_def DOT_def EXCL_def QUEST_def str_replace_def
        str_strip_def isspace_def)
  from C5_empty_segmentation [OF h1 h2, of "py ''a.mp3''" Padrao "[]"] h1 h2
  show ?thesis by blast
qed

text \<open>
  C3: when the transcript has sentences and the illustration of every one of them fails,
  the run shows the error message for it and stops; the assembler is not entered. And in
  no run at all is the assembler entered with an empty list of images.
\<close>

theorem C3_all_illustrations_fail:
  assumes t: "transcriptions_create env buffer = Inr text"
    and ne: "segment_text text \<noteq> []"
    and f: "filter (illustrated env sty) (enumerate 0 (segment_text text)) = []"
  shows "fst (on_click env (Some (name, buffer)) sty fs0) = Stopped \<and>
    last (log (snd (on_click env (Some (name, buffer)) sty fs0))) = StError NoImages \<and>
    assembler_calls (log (snd (on_click env (Some (name, buffer)) sty fs0))) = [] \<and>
    (\<forall>env' uploaded_file sty' fs'.
       list_all (\<lambda>(image_paths, audio_path, output_path). image_paths \<noteq> [])
         (assembler_calls (log (snd (on_click env' uploaded_file sty' fs')))))"
proof -
  let ?S = "segment_text text"
  let ?L = "image_loop env sty (length ?S) (enumerate 0 ?S) [] (transcribed name buffer text fs0)"
  have p: "fst ?L = []" by (simp add: image_loop_paths f)
  have a: "assembler_calls (log (snd ?L)) = []"
    by (simp add: image_loop_assembler_calls transcribed_def)
  have "on_click env (Some (name, buffer)) sty fs0 = (Stopped, emit (StError NoImages) (snd ?L))"
    using ne p unfolding on_click_transcribed [OF t] Let_def split_def by simp
  with a show ?thesis using assembler_never_empty by simp
qed

theorem C3_all_illustrations_fail_witness:
  "transcriptions_create (example_env (py ''Hi. Ok?'') (\<lambda>i. False)) [1, 2] = Inr (py ''Hi. Ok?'') \<and>
   segment_text (py ''Hi. Ok?'') \<noteq> [] \<and>
   filter (illustrated (example_env (py ''Hi. Ok?'') (\<lambda>i. False)) Padrao)
     (enumerate 0 (segment_text (py ''Hi. Ok?''))) = [] \<and>
   fst (on_click (example_env (py ''Hi. Ok?'') (\<lambda>i. False)) (Some (py ''a.mp3'', [1, 2])) Padrao [])
     = Stopped \<and>
   assembler_calls (log (snd (on_click (example_env (py ''Hi. Ok?'') (\<lambda>i. False))
     (Some (py ''a.mp3'', [1, 2])) Padrao []))) = []"
proof -
  let ?E = "example_env (py ''Hi. Ok?'') (\<lambda>i. False)"
  have h1: "transcriptions_create ?E [1, 2] = Inr (py ''Hi. Ok?'')"
    by (simp add: example_env_def)
  have h2: "segment_text (py ''Hi. Ok?'') \<noteq> []"
    by (simp add: example_text)
  have h3: "filter (illustrated ?E Padrao) (enumerate 0 (segment_text (py ''Hi. Ok?''))) = []"
    by (simp add: example_text illustrated_def fetch_image_def example_env_def)
  from C3_all_illustrations_fail [OF h1 h2 h3, of "py ''a.mp3''" "[]"] h1 h2 h3
  show ?thesis by blast
qed

text \<open>
  C4: when the illustration of one sentence at least succeeds, every sentence is tried in
  order, a sentence whose illustration fails makes \<open>generate_image_for_sentence\<close> show
  the error and return \<open>None\<close>, and the assembler is entered once, with the paths of the
  illustrated sentences in the order of the sentences.
\<close>

theorem C4_partial_failure:
  assumes t: "transcriptions_create env buffer = Inr text"
    and k: "filter (illustrated env sty) (enumerate 0 (segment_text text)) \<noteq> []"
  shows "assembler_calls (log (snd (on_click env (Some (name, buffer)) sty fs0))) =
      [(map (\<lambda>(i, sentence). image_path_of i)
          (filter (illustrated env sty) (enumerate 0 (segment_text text))),
        os_path_join (py ''temp'') name, py ''final_animation.mp4'')] \<and>
    illustrator_calls (log (snd (on_click env (Some (name, buffer)) sty fs0))) =
      map (\<lambda>(i, sentence). (sentence, i)) (enumerate 0 (segment_text text)) \<and>
    (\<forall>(i, sentence) \<in> set (enumerate 0 (segment_text text)).
       \<not> illustrated env sty (i, sentence) \<longrightarrow>
       (\<forall>st. \<exists>e. generate_image_for_sentence env sentence (style_options sty) i st =
          (None, emit (StError (ImageError sentence e)) (emit (CallGenerate sentence i) st))))"
proof (intro conjI)
  let ?S = "segment_text text"
  let ?L = "image_loop env sty (length ?S) (enumerate 0 ?S) [] (transcribed name buffer text fs0)"
  note run = on_click_illustrated [OF t k, of name fs0]
  show "assembler_calls (log (snd (on_click env (Some (name, buffer)) sty fs0))) =
      [(map (\<lambda>(i, sentence). image_path_of i) (filter (illustrated env sty) (enumerate 0 ?S)),
        os_path_join (py ''temp'') name, py ''final_animation.mp4'')]"
    unfolding run
    by (simp add: finish_assembler_calls [of "fst r" "snd r" for r, simplified]
        create_video_assembler_calls image_loop_assembler_calls transcribed_def audio_path_of_def)
  show "illustrator_calls (log (snd (on_click env (Some (name, buffer)) sty fs0))) =
      map (\<lambda>(i, sentence). (sentence, i)) (enumerate 0 ?S)"
    unfolding run
    by (simp add: finish_illustrator_calls [of "fst r" "snd r" for r, simplified]
        create_video_illustrator_calls image_loop_illustrator_calls transcribed_def)
  show "\<forall>(i, sentence) \<in> set (enumerate 0 ?S).
       \<not> illustrated env sty (i, sentence) \<longrightarrow>
       (\<forall>st. \<exists>e. generate_image_for_sentence env sentence (style_options sty) i st =
          (None, emit (StError (ImageError sentence e)) (emit (CallGenerate sentence i) st)))"
    by (auto simp: illustrated_def generate_image_for_sentence_def Let_def split: sum.splits)
qed


theorem C4_partial_failure_witness:
  "transcriptions_create (example_env (py ''Hi. Ok? Go!'') (\<lambda>i. i \<noteq> 1)) [7, 2] =
     Inr (py ''Hi. Ok? Go!'') \<and>
   filter (illustrated (example_env (py ''Hi. Ok? Go!'') (\<lambda>i. i \<noteq> 1)) Padrao)
     (enumerate 0 (segment_text (py ''Hi. Ok? Go!''))) = [(0, py ''Hi''), (2, py ''Go'')] \<and>
   assembler_calls (log (snd (on_click (example_env (py ''Hi. Ok? Go!'') (\<lambda>i. i \<noteq> 1))
     (Some (py ''a.mp3'', [7, 2])) Padrao []))) =
     [([py ''temp/image_0.png'', py ''temp/image_2.png''], py ''temp/a.mp3'',
       py ''final_animation.mp4'')] \<and>
   illustrator_calls (log (snd (on_click (example_env (py ''Hi. Ok? Go!'') (\<lambda>i. i \<noteq> 1))
     (Some (py ''a.mp3'', [7, 2])) Padrao []))) = [(py ''Hi'', 0), (py ''Ok'', 1), (py ''Go'', 2)] \<and>
   \<not> illustrated (example_env (py ''Hi. Ok? Go!'') (\<lambda>i. i \<noteq> 1)) Padrao (1, py ''Ok'') \<and>
   fst (generate_image_for_sentence (example_env (py ''Hi. Ok? Go!'') (\<lambda>i. i \<noteq> 1)) (py ''Ok'')
     (style_options Padrao) 1 \<lparr>files = [], log = []\<rparr>) = None"
proof -
  let ?E = "example_env (py ''Hi. Ok? Go!'') (\<lambda>i. i \<noteq> 1)"
  let ?run = "on_click ?E (Some (py ''a.mp3'', [7, 2])) Padrao []"
  have s: "enumerate 0 (segment_text (py ''Hi. Ok? Go!'')) =
      [(0, py ''Hi''), (1, py ''Ok''), (2, py ''Go'')]"
    by (simp add: segment_text_def py_def DOT_def EXCL_def QUEST_def str_replace_def
        str_strip_def isspace_def)
  have h1: "transcriptions_create ?E [7, 2] = Inr (py ''Hi. Ok? Go!'')"
    by (simp add: example_env_def)
  have h2: "filter (illustrated ?E Padrao) (enumerate 0 (segment_text (py ''Hi. Ok? Go!''))) =
      [(0, py ''Hi''), (2, py ''Go'')]"
    unfolding s by (simp add: illustrated_def fetch_image_def example_env_def)
  have k: "filter (illustrated ?E Padrao) (enumerate 0 (segment_text (py ''Hi. Ok? Go!''))) \<noteq> []"
    unfolding h2 by simp
  have n: "\<not> illustrated ?E Padrao (1, py ''Ok'')"
    by (simp add: illustrated_def fetch_image_def example_env_def)
  have p0: "image_path_of 0 = py ''temp/image_0.png''"
    by (simp add: image_path_of_def os_path_join_def py_def SLASH_def str_of_nat.simps)
  have p2: "image_path_of 2 = py ''temp/image_2.png''"
    by (simp add: image_path_of_def os_path_join_def py_def SLASH_def str_of_nat.simps)
  have pa: "os_path_join (py ''temp'') (py ''a.mp3'') = py ''temp/a.mp3''"
    by (simp add: os_path_join_def py_def SLASH_def)
  have m: "map (\<lambda>(i, sentence). image_path_of i) [(0, py ''Hi''), (2, py ''Go'')] =
      [py ''temp/image_0.png'', py ''temp/image_2.png'']"
    unfolding list.map prod.case p0 p2 by (rule refl)
  have m': "map (\<lambda>(i, sentence). (sentence, i)) [(0, py ''Hi''), (1, py ''Ok''), (2, py ''Go'')] =
      [(py ''Hi'', 0), (py ''Ok'', 1), (py ''Go'', 2)]"
    unfolding list.map prod.case by (rule refl)
  note c4 = C4_partial_failure [OF h1 k, of "py ''a.mp3''" "[]"]
  from c4 have a: "assembler_calls (log (snd ?run)) =
      [([py ''temp/image_0.png'', py ''temp/image_2.png''], py ''temp/a.mp3'',
        py ''final_animation.mp4'')]"
    unfolding h2 m pa by (rule conjunct1)
  from c4 have i: "illustrator_calls (log (snd ?run)) =
      [(py ''Hi'', 0), (py ''Ok'', 1), (py ''Go'', 2)]"
    unfolding s m' by blast
  have "(1, py ''Ok'') \<in> set (enumerate 0 (segment_text (py ''Hi. Ok? Go!'')))"
    unfolding s by simp
  with c4 n have "\<exists>e. generate_image_for_sentence ?E (py ''Ok'') (style_options Padrao) 1
      \<lparr>files = [], log = []\<rparr> =
      (None, emit (StError (ImageError (py ''Ok'') e)) (emit (CallGenerate (py ''Ok'') 1)
        \<lparr>files = [], log = []\<rparr>))"
    by blast
  then have g: "fst (generate_image_for_sentence ?E (py ''Ok'') (style_options Padrao) 1
      \<lparr>files = [], log = []\<rparr>) = None"
    by auto
  from h1 h2 a i n g show ?thesis by blast
qed

text \<open>
  C6: with a readable audio file and one image at least, when every image loads, the video
  handed to the encoder has one clip for each image path, in the order of the paths, and
  every clip, the first and the later ones alike, carries the one effect of a fade-in of
  half a second, applied before the clips are concatenated; when an image does not load,
  the call raises, and nothing is concatenated or encoded.
\<close>

theorem C6_fadein_every_clip:
  assumes a: "read_file audio_path st = Inr data"
    and d: "audio_decode env data = Inr total_duration"
    and ne: "image_paths \<noteq> []"
  shows "(list_all (image_loads env st) image_paths \<longrightarrow>
      log (snd (create_video_from_images env image_paths audio_path output_path st)) =
        log st @
        [CallCreateVideo image_paths audio_path output_path,
         WriteVideofile
           \<lparr>segments = map (\<lambda>p. \<lparr>image = p,
                duration = Some (float_div env total_duration (length image_paths)),
                effects = [FadeIn (1 / 2)]\<rparr>) image_paths,
            audio = Some \<lparr>a_file = audio_path, a_duration = total_duration\<rparr>\<rparr>
           output_path]) \<and>
    (\<not> list_all (image_loads env st) image_paths \<longrightarrow>
      (\<exists>e. create_video_from_images env image_paths audio_path output_path st =
        (Inl e, emit (CallCreateVideo image_paths audio_path output_path) st)))"
proof (intro conjI impI)
  assume "list_all (image_loads env st) image_paths"
  with assms
  show "log (snd (create_video_from_images env image_paths audio_path output_path st)) =
      log st @
      [CallCreateVideo image_paths audio_path output_path,
       WriteVideofile
         \<lparr>segments = map (\<lambda>p. \<lparr>image = p,
              duration = Some (float_div env total_duration (length image_paths)),
              effects = [FadeIn (1 / 2)]\<rparr>) image_paths,
          audio = Some \<lparr>a_file = audio_path, a_duration = total_duration\<rparr>\<rparr>
         output_path]"
    by (simp add: create_video_from_images_def AudioFileClip_def Let_def clips_loop_eq
        set_audio_def concatenate_videoclips_def split: sum.splits)
next
  let ?st1 = "emit (CallCreateVideo image_paths audio_path output_path) st"
  assume "\<not> list_all (image_loads env st) image_paths"
  then have "\<not> list_all (image_loads env ?st1) image_paths" by simp
  then obtain e
    where "clips_loop env ?st1 (float_div env total_duration (length image_paths)) image_paths [] =
      Inl e"
    using clips_loop_fails by blast
  with assms
  show "\<exists>e. create_video_from_images env image_paths audio_path output_path st = (Inl e, ?st1)"
    by (simp add: create_video_from_images_def AudioFileClip_def Let_def)
qed

theorem C6_fadein_every_clip_witness:
  "read_file (py ''temp/a.mp3'')
     \<lparr>files = [(py ''temp/a.mp3'', [1, 2]), (py ''temp/image_0.png'', [3]),
                (py ''temp/image_1.png'', [4])], log = []\<rparr> = Inr [1, 2] \<and>
   audio_decode (example_env [] (\<lambda>i. True)) [1, 2] = Inr 10 \<and>
   [py ''temp/image_0.png'', py ''temp/image_1.png''] \<noteq> [] \<and>
   list_all (image_loads (example_env [] (\<lambda>i. True))
       \<lparr>files = [(py ''temp/a.mp3'', [1, 2]), (py ''temp/image_0.png'', [3]),
                  (py ''temp/image_1.png'', [4])], log = []\<rparr>)
     [py ''temp/image_0.png'', py ''temp/image_1.png''] \<and>
   log (snd (create_video_from_images (example_env [] (\<lambda>i. True))
     [py ''temp/image_0.png'', py ''temp/image_1.png''] (py ''temp/a.mp3'') (py ''out.mp4'')
     \<lparr>files = [(py ''temp/a.mp3'', [1, 2]), (py ''temp/image_0.png'', [3]),
                (py ''temp/image_1.png'', [4])], log = []\<rparr>)) =
     [CallCreateVideo [py ''temp/image_0.png'', py ''temp/image_1.png''] (py ''temp/a.mp3'')
        (py ''out.mp4''),
      WriteVideofile
        \<lparr>segments =
           [\<lparr>image = py ''temp/image_0.png'', duration = Some 5, effects = [FadeIn (1 / 2)]\<rparr>,
            \<lparr>image = py ''temp/image_1.png'', duration = Some 5, effects = [FadeIn (1 / 2)]\<rparr>],
         audio = Some \<lparr>a_file = py ''temp/a.mp3'', a_duration = 10\<rparr>\<rparr>
        (py ''out.mp4'')] \<and>
   \<not> list_all (image_loads (example_env [] (\<lambda>i. True))
       \<lparr>files = [(py ''temp/a.mp3'', [1, 2])], log = []\<rparr>)
     [py ''temp/image_0.png''] \<and>
   fst (create_video_from_images (example_env [] (\<lambda>i. True))
     [py ''temp/image_0.png''] (py ''temp/a.mp3'') (py ''out.mp4'')
     \<lparr>files = [(py ''temp/a.mp3'', [1, 2])], log = []\<rparr>) = Inl FileNotFoundError"
proof -
  let ?E = "example_env [] (\<lambda>i. True)"
  let ?st = "\<lparr>files = [(py ''temp/a.mp3'', [1, 2]), (py ''temp/image_0.png'', [3]),
      (py ''temp/image_1.png'', [4])], log = []\<rparr>"
  let ?st' = "\<lparr>files = [(py ''temp/a.mp3'', [1, 2])], log = []\<rparr>"
  have h1: "read_file (py ''temp/a.mp3'') ?st = Inr [1, 2]"
    by (simp add: read_file_def)
  have h2: "audio_decode ?E [1, 2] = Inr 10"
    by (simp add: example_env_def)
  have h3: "[py ''temp/image_0.png'', py ''temp/image_1.png''] \<noteq> []" by simp
  have h4: "float_div ?E 10 (length [py ''temp/image_0.png'', py ''temp/image_1.png'']) = 5"
    by (simp add: example_env_def)
  have h5: "list_all (image_loads ?E ?st) [py ''temp/image_0.png'', py ''temp/image_1.png'']"
    by (simp add: image_loads_def ImageClip_def read_file_def example_env_def py_def)
  have g1: "read_file (py ''temp/a.mp3'') ?st' = Inr [1, 2]"
    by (simp add: read_file_def)
  have g5: "\<not> list_all (image_loads ?E ?st') [py ''temp/image_0.png'']"
    by (simp add: image_loads_def ImageClip_def read_file_def py_def)
  have r: "ImageClip ?E (py ''temp/image_0.png'')
      (emit (CallCreateVideo [py ''temp/image_0.png''] (py ''temp/a.mp3'') (py ''out.mp4'')) ?st') =
      Inl FileNotFoundError"
    by (simp add: ImageClip_def read_file_def py_def)
  from C6_fadein_every_clip [OF h1 h2 h3, of "py ''out.mp4''"] h5
  have w: "log (snd (create_video_from_images ?E
      [py ''temp/image_0.png'', py ''temp/image_1.png''] (py ''temp/a.mp3'') (py ''out.mp4'') ?st)) =
      [CallCreateVideo [py ''temp/image_0.png'', py ''temp/image_1.png''] (py ''temp/a.mp3'')
         (py ''out.mp4''),
       WriteVideofile
         \<lparr>segments =
            [\<lparr>image = py ''temp/image_0.png'', duration = Some 5, effects = [FadeIn (1 / 2)]\<rparr>,
             \<lparr>image = py ''temp/image_1.png'', duration = Some 5, effects = [FadeIn (1 / 2)]\<rparr>],
          audio = Some \<lparr>a_file = py ''temp/a.mp3'', a_duration = 10\<rparr>\<rparr>
         (py ''out.mp4'')]"
    unfolding h4 by simp
  have f: "fst (create_video_from_images ?E [py ''temp/image_0.png''] (py ''temp/a.mp3'')
      (py ''out.mp4'') ?st') = Inl FileNotFoundError"
    using g1 h2 r by (simp add: create_video_from_images_def AudioFileClip_def Let_def)
  from h1 h2 h3 h5 w g5 f show ?thesis by blast
qed

text \<open>
  C10: a run that reaches its end leaves the video at \<^verbatim>\<open>final_animation.mp4\<close>, a
  path that is no entry of \<^verbatim>\<open>temp\<close>; no entry of \<^verbatim>\<open>temp\<close> is left, the saved upload
  among them when its name is a plain file name; and every file at another path is as it
  was before the run.
\<close>

theorem C10_cleanup_keeps_video:
  assumes "fst (on_click env (Some (name, buffer)) sty fs0) = Completed"
  shows "map_of (files (snd (on_click env (Some (name, buffer)) sty fs0)))
           (py ''final_animation.mp4'') \<noteq> None \<and>
    \<not> in_dir (py ''temp'') (py ''final_animation.mp4'') \<and>
    (\<forall>p. in_dir (py ''temp'') p \<longrightarrow>
       map_of (files (snd (on_click env (Some (name, buffer)) sty fs0))) p = None) \<and>
    (\<forall>i. map_of (files (snd (on_click env (Some (name, buffer)) sty fs0)))
       (image_path_of i) = None) \<and>
    (name \<noteq> [] \<and> SLASH \<notin> set name \<longrightarrow>
       map_of (files (snd (on_click env (Some (name, buffer)) sty fs0)))
         (os_path_join (py ''temp'') name) = None) \<and>
    (\<forall>p. \<not> in_dir (py ''temp'') p \<and> p \<noteq> py ''final_animation.mp4'' \<and>
         p \<noteq> os_path_join (py ''temp'') name \<longrightarrow>
       map_of (files (snd (on_click env (Some (name, buffer)) sty fs0))) p = map_of fs0 p)"
proof -
  let ?run = "on_click env (Some (name, buffer)) sty fs0"
  let ?out = "py ''final_animation.mp4''"
  from on_click_completed [OF assms] obtain tr
    where t: "transcriptions_create env buffer = Inr tr"
      and k: "filter (illustrated env sty) (enumerate 0 (segment_text tr)) \<noteq> []"
    by blast
  let ?st4 = "transcribed name buffer tr fs0"
  let ?st5 = "snd (image_loop env sty (length (segment_text tr))
                (enumerate 0 (segment_text tr)) [] ?st4)"
  let ?ps = "map (\<lambda>(i, sentence). image_path_of i)
               (filter (illustrated env sty) (enumerate 0 (segment_text tr)))"
  let ?cv = "create_video_from_images env ?ps (audio_path_of name) ?out (emit (Progress 95) ?st5)"
  have run: "?run = finish (fst ?cv, snd ?cv)"
    using on_click_illustrated [OF t k, of name fs0] by simp
  with assms have c: "fst (finish (fst ?cv, snd ?cv)) = Completed" by simp
  note fc = finish_completed [OF c]
  from fc obtain v where v: "fst ?cv = Inr v" by blast
  have F: "map_of (files (snd ?run)) p =
      (if in_dir (py ''temp'') p then None else map_of (files (snd ?cv)) p)" for p
    unfolding run using fc by blast
  have out: "map_of (files (snd ?cv)) ?out \<noteq> None"
    using create_video_returns [OF v] by simp
  have other: "map_of (files (snd ?cv)) p = map_of fs0 p"
    if "\<not> in_dir (py ''temp'') p" "p \<noteq> ?out" "p \<noteq> os_path_join (py ''temp'') name" for p
  proof -
    have "map_of (files (snd ?cv)) p = map_of (files (emit (Progress 95) ?st5)) p"
      using create_video_files [of env ?ps "audio_path_of name" ?out "emit (Progress 95) ?st5" p]
        that(2) by simp
    also have "\<dots> = map_of (files ?st4) p"
      using image_loop_files [OF that(1)] by simp
    also have "\<dots> = map_of fs0 p"
      using that(3) by (simp add: transcribed_def audio_path_of_def update_conv')
    finally show ?thesis .
  qed
  have 1: "map_of (files (snd ?run)) ?out \<noteq> None"
    using F [of ?out] out output_not_in_temp by simp
  have 3: "\<forall>p. in_dir (py ''temp'') p \<longrightarrow> map_of (files (snd ?run)) p = None"
    using F by simp
  have 4: "\<forall>i. map_of (files (snd ?run)) (image_path_of i) = None"
    using F image_path_in_temp by simp
  have 5: "name \<noteq> [] \<and> SLASH \<notin> set name \<longrightarrow>
      map_of (files (snd ?run)) (os_path_join (py ''temp'') name) = None"
  proof
    assume "name \<noteq> [] \<and> SLASH \<notin> set name"
    then have "in_dir (py ''temp'') (os_path_join (py ''temp'') name)"
      unfolding in_dir_iff using os_path_join_temp by blast
    with F show "map_of (files (snd ?run)) (os_path_join (py ''temp'') name) = None" by simp
  qed
  have 6: "\<forall>p. \<not> in_dir (py ''temp'') p \<and> p \<noteq> ?out \<and> p \<noteq> os_path_join (py ''temp'') name \<longrightarrow>
      map_of (files (snd ?run)) p = map_of fs0 p"
    using F other by simp
  from 1 output_not_in_temp 3 4 5 6 show ?thesis by blast
qed

theorem C10_cleanup_keeps_video_witness:
  "fst (on_click (example_env (py ''Hi. Ok?'') (\<lambda>i. True)) (Some (py ''a.mp3'', [7, 2])) Padrao
     [(py ''notes.txt'', [9]), (py ''temp/old.png'', [3])]) = Completed \<and>
   map_of (files (snd (on_click (example_env (py ''Hi. Ok?'') (\<lambda>i. True))
     (Some (py ''a.mp3'', [7, 2])) Padrao [(py ''notes.txt'', [9]), (py ''temp/old.png'', [3])])))
     (py ''final_animation.mp4'') \<noteq> None \<and>
   map_of (files (snd (on_click (example_env (py ''Hi. Ok?'') (\<lambda>i. True))
     (Some (py ''a.mp3'', [7, 2])) Padrao [(py ''notes.txt'', [9]), (py ''temp/old.png'', [3])])))
     (py ''temp/old.png'') = None \<and>
   map_of (files (snd (on_click (example_env (py ''Hi. Ok?'') (\<lambda>i. True))
     (Some (py ''a.mp3'', [7, 2])) Padrao [(py ''notes.txt'', [9]), (py ''temp/old.png'', [3])])))
     (py ''temp/a.mp3'') = None \<and>
   map_of (files (snd (on_click (example_env (py ''Hi. Ok?'') (\<lambda>i. True))
     (Some (py ''a.mp3'', [7, 2])) Padrao [(py ''notes.txt'', [9]), (py ''temp/old.png'', [3])])))
     (py ''temp/image_0.png'') = None \<and>
   map_of (files (snd (on_click (example_env (py ''Hi. Ok?'') (\<lambda>i. True))
     (Some (py ''a.mp3'', [7, 2])) Padrao [(py ''notes.txt'', [9]), (py ''temp/old.png'', [3])])))
     (py ''notes.txt'') = Some [9]"
proof -
  let ?E = "example_env (py ''Hi. Ok?'') (\<lambda>i. True)"
  let ?fs0 = "[(py ''notes.txt'', [9]), (py ''temp/old.png'', [3])]"
  let ?run = "on_click ?E (Some (py ''a.mp3'', [7, 2])) Padrao ?fs0"
  have t: "transcriptions_create ?E [7, 2] = Inr (py ''Hi. Ok?'')"
    by (simp add: example_env_def)
  have k: "filter (illustrated ?E Padrao) (enumerate 0 (segment_text (py ''Hi. Ok?''))) \<noteq> []"
    by (simp add: example_text illustrated_def fetch_image_def example_env_def)
  have pa: "os_path_join (py ''temp'') (py ''a.mp3'') = py ''temp/a.mp3''"
    by (simp add: os_path_join_def py_def SLASH_def)
  have pi: "image_path_of i = py ''temp/image_'' @ str_of_nat i @ py ''.png''" for i
    unfolding image_path_of_def
    using os_path_join_temp [of "py ''image_'' @ str_of_nat i @ py ''.png''"] image_name_plain [of i]
    by (simp add: py_def SLASH_def)
  have a: "\<forall>(i, sentence) \<in> set (enumerate 0 (segment_text (py ''Hi. Ok?''))).
      audio_path_of (py ''a.mp3'') \<noteq> image_path_of i"
    unfolding audio_path_of_def pa pi by (simp add: py_def)
  have d: "audio_decode ?E [7, 2] = Inr 10" by (simp add: example_env_def)
  have e: "encode ?E v = Inr [7]" for v by (simp add: example_env_def)
  have g: "image_decode ?E data = Inr ()" for data by (simp add: example_env_def)
  have h: "fst ?run = Completed" using t k a d e g by (rule on_click_completes)
  note c10 = C10_cleanup_keeps_video [OF h]
  have 1: "map_of (files (snd ?run)) (py ''final_animation.mp4'') \<noteq> None"
    using c10 by blast
  have "in_dir (py ''temp'') (py ''temp/old.png'')"
    by (simp add: in_dir_def py_def SLASH_def)
  with c10 have 2: "map_of (files (snd ?run)) (py ''temp/old.png'') = None" by blast
  have "py ''a.mp3'' \<noteq> [] \<and> SLASH \<notin> set (py ''a.mp3'')"
    by (simp add: py_def SLASH_def)
  with c10 have 3: "map_of (files (snd ?run)) (py ''temp/a.mp3'') = None"
    unfolding pa by blast
  have "image_path_of 0 = py ''temp/image_0.png''"
    unfolding pi by (simp add: py_def str_of_nat.simps)
  with c10 have 4: "map_of (files (snd ?run)) (py ''temp/image_0.png'') = None" by metis
  have "\<not> in_dir (py ''temp'') (py ''notes.txt'') \<and> py ''notes.txt'' \<noteq> py ''final_animation.mp4'' \<and>
      py ''notes.txt'' \<noteq> os_path_join (py ''temp'') (py ''a.mp3'')"
    unfolding pa by (simp add: in_dir_def py_def)
  with c10 have "map_of (files (snd ?run)) (py ''notes.txt'') = map_of ?fs0 (py ''notes.txt'')"
    by blast
  then have 5: "map_of (files (snd ?run)) (py ''notes.txt'') = Some [9]" by simp
  from h 1 2 3 4 5 show ?thesis by blast
qed

end
